theory Spec2Isabelle
  imports Main "HOL-Library.Char_ord" "HOL-Library.List_Lexorder" "HOL-Library.AList"
    "HOL-Library.Sublist"
begin

section \<open>Values shared by the server variants\<close>

text \<open>
  The repository holds two variants of one Express server: the MongoDB variant (documents
  in the collection \<open>store\<close>, backups in the collection \<open>backups\<close>, photos on the local disk
  and in a GridFS bucket) and the file variant (documents, backups and photos as files
  under \<open>data/\<close>). Each request handler is embedded as a function from the state of the
  storage before the request to the response and the state after it. A handler runs from
  start to end without another request in between.

  Every storage primitive may fail. What fails is decided by the environment of the
  request, \<open>fails\<close>: it maps a primitive to the message of the error it throws, or to
  \<open>None\<close> when the primitive succeeds. The environment also holds what the handler reads
  from the clock and the random generator.
\<close>

text \<open>
  A parsed JSON value. The handlers store and return the documents as they are and test
  nothing of a number but whether it is zero, so a number is an integer here.
\<close>

datatype json =
    JNull
  | JBool bool
  | JNum int
  | JStr string
  | JArr "json list"
  | JObj "(string \<times> json) list"

text \<open>JavaScript's truthiness, as \<open>if (v)\<close>, \<open>!v\<close> and \<open>v || d\<close> test it.\<close>

fun truthy :: "json \<Rightarrow> bool" where
  "truthy JNull = False"
| "truthy (JBool b) = b"
| "truthy (JNum n) = (n \<noteq> 0)"
| "truthy (JStr s) = (s \<noteq> [])"
| "truthy (JArr xs) = True"
| "truthy (JObj kvs) = True"

text \<open>A \<open>Date\<close>: its millisecond value orders it, \<open>toISOString\<close> prints it.\<close>

record date =
  getTime :: int
  toISOString :: string

definition startsWith :: "string \<Rightarrow> string \<Rightarrow> bool" where
  "startsWith s p = (take (length p) s = p)"

definition endsWith :: "string \<Rightarrow> string \<Rightarrow> bool" where
  "endsWith s p = (length p \<le> length s \<and> drop (length s - length p) s = p)"

text \<open>\<open>s.replace(/[:.]/g, '-')\<close>\<close>

definition replace_colon_dot :: "string \<Rightarrow> string" where
  "replace_colon_dot s = map (\<lambda>c. if c = CHR '':'' \<or> c = CHR ''.'' then CHR ''-'' else c) s"

text \<open>\<open>s.replace(pat, rep)\<close> with a string pattern: the first occurrence only.\<close>

fun replace_first :: "string \<Rightarrow> string \<Rightarrow> string \<Rightarrow> string" where
  "replace_first pat rep [] = (if pat = [] then rep else [])"
| "replace_first pat rep (c # cs) =
     (if startsWith (c # cs) pat then rep @ drop (length pat) (c # cs)
      else c # replace_first pat rep cs)"

definition MAX_BACKUPS :: nat where
  "MAX_BACKUPS = 20"

definition backup_name :: "date \<Rightarrow> string" where
  "backup_name d = ''backup-'' @ replace_colon_dot (toISOString d) @ ''.json''"

definition valid_backup_name :: "string \<Rightarrow> bool" where
  "valid_backup_name f = (startsWith f ''backup-'' \<and> endsWith f ''.json'')"

record snapshot =
  settings :: json
  appdata :: json

record backup = snapshot +
  oid :: nat
  filename :: string
  created :: date

record update =
  id_u :: string
  staff :: string
  message :: string
  type_u :: string
  day :: int
  photo :: "string option"
  timestamp :: string

text \<open>
  \<open>parseInt(s)\<close> with no radix: leading white space, a sign, an optional \<open>0x\<close>, then the
  longest run of digits; \<open>None\<close> is NaN. The value is the exact integer (JavaScript rounds
  it to a double beyond \<open>2^53\<close>), and white space is the ASCII white space.
\<close>

definition is_space :: "char \<Rightarrow> bool" where
  "is_space c = (c \<in> set [CHR '' '', CHR 0x09, CHR 0x0A, CHR 0x0B, CHR 0x0C, CHR 0x0D])"

definition digit_value :: "char \<Rightarrow> nat option" where
  "digit_value c =
     (let n = (of_char c :: nat) in
      if 48 \<le> n \<and> n \<le> 57 then Some (n - 48)
      else if 97 \<le> n \<and> n \<le> 122 then Some (n - 87)
      else if 65 \<le> n \<and> n \<le> 90 then Some (n - 55)
      else None)"

definition is_digit :: "nat \<Rightarrow> char \<Rightarrow> bool" where
  "is_digit radix c = (case digit_value c of None \<Rightarrow> False | Some v \<Rightarrow> v < radix)"

definition digits_value :: "nat \<Rightarrow> string \<Rightarrow> int" where
  "digits_value radix ds = int (foldl (\<lambda>a c. a * radix + the (digit_value c)) 0 ds)"

definition parseInt_string :: "string \<Rightarrow> int option" where
  "parseInt_string s =
     (let s1 = dropWhile is_space s;
          neg = (case s1 of c # r \<Rightarrow> c = CHR ''-'' | [] \<Rightarrow> False);
          s2 = (case s1 of c # r \<Rightarrow> if c = CHR ''-'' \<or> c = CHR ''+'' then r else s1 | [] \<Rightarrow> s1);
          hex = (startsWith s2 ''0x'' \<or> startsWith s2 ''0X'');
          radix = (if hex then 16 else 10);
          s3 = (if hex then drop 2 s2 else s2);
          ds = takeWhile (is_digit radix) s3
      in if ds = [] then None
         else Some (if neg then - digits_value radix ds else digits_value radix ds))"

text \<open>A missing field is \<open>undefined\<close>, which \<open>parseInt\<close> reads as the text "undefined".\<close>

definition parseInt :: "string option \<Rightarrow> int option" where
  "parseInt v = (case v of None \<Rightarrow> parseInt_string ''undefined'' | Some s \<Rightarrow> parseInt_string s)"

text \<open>\<open>v || d\<close> on an optional text field: \<open>undefined\<close> and the empty string are falsy.\<close>

definition or_default :: "string option \<Rightarrow> string \<Rightarrow> string" where
  "or_default v d = (case v of None \<Rightarrow> d | Some s \<Rightarrow> if s \<noteq> [] then s else d)"

text \<open>The fields \<open>req.body\<close> carries after the multipart parser, and \<open>req.file\<close>.\<close>

record fields =
  f_staff :: "string option"
  f_message :: "string option"
  f_type :: "string option"
  f_day :: "string option"

record upload =
  u_filename :: string
  u_path :: string

datatype io_op =
    StoreFindOne string
  | StoreUpdateOne string
  | BackupsInsertOne
  | BackupsCount
  | BackupsFind
  | BackupsDeleteMany
  | BackupsFindOne string
  | GridFSUpload string
  | GridFSFind string
  | GridFSDelete nat
  | ReadFile string
  | WriteFile string
  | Unlink string
  | ReadDir string
  | Stat string
  | ReadStream string

record env =
  fails :: "io_op \<Rightarrow> string option"
  now :: date
  objectId :: nat
  randomId :: string
  stringifyLength :: "backup \<Rightarrow> nat"
  byteLength :: "json \<Rightarrow> json \<Rightarrow> nat"
  outside :: "string \<Rightarrow> json option"

record summary =
  s_filename :: string
  s_size :: nat
  s_created :: string

text \<open>
  What the client receives from a handler. \<open>Unanswered\<close>: the handler never sends a
  response, because a promise that it awaits is never settled; the request stays open.
\<close>

datatype response =
    OkTrue
  | OkUpdate update
  | JsonDoc json
  | JsonUpdates "update list"
  | JsonBackups "summary list"
  | SendFile string
  | Stream string
  | Error nat string
  | Unanswered

text \<open>The record that \<open>POST /api/updates\<close> builds, before a photo is attached.\<close>

definition new_update :: "env \<Rightarrow> fields \<Rightarrow> update" where
  "new_update e b =
     \<lparr> id_u = randomId e,
       staff = or_default (f_staff b) ''Anonymous'',
       message = or_default (f_message b) '''',
       type_u = or_default (f_type b) ''general'',
       day = (case parseInt (f_day b) of None \<Rightarrow> 0 | Some n \<Rightarrow> if n \<noteq> 0 then n else 0),
       photo = None,
       timestamp = toISOString (now e) \<rparr>"

section \<open>The MongoDB variant\<close>

text \<open>
  The collection \<open>store\<close> holds one document per key. The documents \<open>settings\<close> and
  \<open>appdata\<close> hold a JSON value, the document \<open>updates\<close> the array of update records;
  \<open>store\<close> is the former, \<open>updates\<close> the latter. \<open>photos\<close> is the GridFS bucket (file id and
  file name), \<open>uploads\<close> the names of the files in the local uploads directory.
\<close>

record db =
  store :: "string \<Rightarrow> json option"
  updates :: "update list option"
  backups :: "backup list"
  photos :: "(nat \<times> string) list"
  uploads :: "string set"

definition getDoc :: "env \<Rightarrow> db \<Rightarrow> string \<Rightarrow> json" where
  "getDoc e s key =
     (case fails e (StoreFindOne key) of
        Some m \<Rightarrow> JNull
      | None \<Rightarrow> (case store s key of None \<Rightarrow> JNull | Some d \<Rightarrow> d))"

definition setDoc :: "env \<Rightarrow> db \<Rightarrow> string \<Rightarrow> json \<Rightarrow> (string + unit) \<times> db" where
  "setDoc e s key d =
     (case fails e (StoreUpdateOne key) of
        Some m \<Rightarrow> (Inl m, s)
      | None \<Rightarrow> (Inr (), s\<lparr>store := (store s)(key \<mapsto> d)\<rparr>))"

text \<open>\<open>getDoc('updates')\<close> and \<open>setDoc('updates', ...)\<close>: the same code at the key \<open>updates\<close>.\<close>

definition getDoc_updates :: "env \<Rightarrow> db \<Rightarrow> update list option" where
  "getDoc_updates e s =
     (case fails e (StoreFindOne ''updates'') of
        Some m \<Rightarrow> None
      | None \<Rightarrow> updates s)"

definition setDoc_updates :: "env \<Rightarrow> db \<Rightarrow> update list \<Rightarrow> (string + unit) \<times> db" where
  "setDoc_updates e s us =
     (case fails e (StoreUpdateOne ''updates'') of
        Some m \<Rightarrow> (Inl m, s)
      | None \<Rightarrow> (Inr (), s\<lparr>updates := Some us\<rparr>))"

text \<open>\<open>(await getDoc('updates')) || []\<close>\<close>

definition updates_or_empty :: "update list option \<Rightarrow> update list" where
  "updates_or_empty d = (case d of None \<Rightarrow> [] | Some us \<Rightarrow> us)"

subsection \<open>Backups\<close>

text \<open>\<open>insertOne\<close>: the collection refuses a second document with the same \<open>_id\<close>.\<close>

definition insertOne :: "env \<Rightarrow> db \<Rightarrow> backup \<Rightarrow> (string + unit) \<times> db" where
  "insertOne e s b =
     (case fails e BackupsInsertOne of
        Some m \<Rightarrow> (Inl m, s)
      | None \<Rightarrow>
          if oid b \<in> set (map oid (backups s)) then (Inl ''duplicate key'', s)
          else (Inr (), s\<lparr>backups := backups s @ [b]\<rparr>))"

definition countDocuments :: "env \<Rightarrow> db \<Rightarrow> string + nat" where
  "countDocuments e s =
     (case fails e BackupsCount of Some m \<Rightarrow> Inl m | None \<Rightarrow> Inr (length (backups s)))"

text \<open>\<open>find().sort({ created: 1 })\<close>; documents of equal date keep their insertion order.\<close>

definition sort_created :: "backup list \<Rightarrow> backup list" where
  "sort_created bs = sort_key (\<lambda>b. getTime (created b)) bs"

text \<open>\<open>find().sort({ created: -1 })\<close>\<close>

definition sort_created_desc :: "backup list \<Rightarrow> backup list" where
  "sort_created_desc bs = sort_key (\<lambda>b. - getTime (created b)) bs"

definition find_oldest :: "env \<Rightarrow> db \<Rightarrow> nat \<Rightarrow> string + backup list" where
  "find_oldest e s n =
     (case fails e BackupsFind of
        Some m \<Rightarrow> Inl m
      | None \<Rightarrow> Inr (take n (sort_created (backups s))))"

definition deleteMany :: "env \<Rightarrow> db \<Rightarrow> nat list \<Rightarrow> (string + unit) \<times> db" where
  "deleteMany e s ids =
     (case fails e BackupsDeleteMany of
        Some m \<Rightarrow> (Inl m, s)
      | None \<Rightarrow> (Inr (), s\<lparr>backups := filter (\<lambda>b. oid b \<notin> set ids) (backups s)\<rparr>))"

text \<open>
  The end of the \<open>try\<close> block of \<open>createBackup\<close>, after the insertion: the documents
  beyond \<open>MAX_BACKUPS\<close>, oldest first, are deleted.
\<close>

definition enforce_limit :: "env \<Rightarrow> db \<Rightarrow> (string + unit) \<times> db" where
  "enforce_limit e s =
     (case countDocuments e s of
        Inl m \<Rightarrow> (Inl m, s)
      | Inr count \<Rightarrow>
          if count > MAX_BACKUPS then
            (case find_oldest e s (count - MAX_BACKUPS) of
               Inl m \<Rightarrow> (Inl m, s)
             | Inr oldest \<Rightarrow> deleteMany e s (map oid oldest))
          else (Inr (), s))"

text \<open>The body of the \<open>try\<close> block of \<open>createBackup\<close>: \<open>Inl\<close> is an exception thrown in it.\<close>

definition new_backup :: "env \<Rightarrow> json \<Rightarrow> json \<Rightarrow> backup" where
  "new_backup e settingsData appData =
     \<lparr> settings = settingsData, appdata = appData, oid = objectId e,
       filename = backup_name (now e), created = now e \<rparr>"

definition createBackup_try :: "env \<Rightarrow> db \<Rightarrow> (string + unit) \<times> db" where
  "createBackup_try e s =
     (let settingsData = getDoc e s ''settings'';
          appData = getDoc e s ''appdata''
      in if \<not> truthy settingsData \<and> \<not> truthy appData then (Inr (), s)
         else
           (case insertOne e s (new_backup e settingsData appData) of
              (Inl m, s1) \<Rightarrow> (Inl m, s1)
            | (Inr u, s1) \<Rightarrow> enforce_limit e s1))"

text \<open>\<open>createBackup\<close>: the \<open>catch\<close> logs the exception and returns.\<close>

definition createBackup :: "env \<Rightarrow> db \<Rightarrow> (string + unit) \<times> db" where
  "createBackup e s =
     (case createBackup_try e s of
        (Inl m, s1) \<Rightarrow> (Inr (), s1)
      | (Inr u, s1) \<Rightarrow> (Inr u, s1))"

subsection \<open>Photos: the local uploads directory and the GridFS bucket\<close>

definition local_path :: "string \<Rightarrow> string" where
  "local_path name = ''data/uploads/'' @ name"

text \<open>The file at \<open>filePath\<close> is a file of the local uploads directory.\<close>

definition local_file :: "db \<Rightarrow> string \<Rightarrow> bool" where
  "local_file s filePath =
     (startsWith filePath ''data/uploads/'' \<and>
      drop (length ''data/uploads/'') filePath \<in> uploads s)"

text \<open>
  \<open>fs.createReadStream(filePath)\<close>: the error that the stream emits, if it emits one. A
  file that does not exist cannot be opened.
\<close>

definition createReadStream :: "env \<Rightarrow> db \<Rightarrow> string \<Rightarrow> string option" where
  "createReadStream e s filePath =
     (case fails e (ReadStream filePath) of
        Some m \<Rightarrow> Some m
      | None \<Rightarrow> if local_file s filePath then None else Some ''ENOENT'')"

text \<open>
  The multipart middleware has written the uploaded file into the local uploads directory
  before the handler runs; \<open>uploadToGridFS\<close> pipes it into the bucket under a new file id.

  \<open>stream.pipe(uploadStream)\<close> returns the upload stream, so both listeners of the
  promise are on the upload stream: its \<open>finish\<close> resolves the promise with the file id
  and its \<open>error\<close> rejects it (\<open>Some (Inr id)\<close> and \<open>Some (Inl message)\<close>). An error of the
  local read stream has no listener: the upload stream is never ended, the bucket stores
  no file, and the promise is never settled, which is the result \<open>None\<close>. (The error
  itself reaches the handler of \<open>uncaughtException\<close>, which logs it.) When the upload
  stream emits an error the promise is rejected, whatever the read stream does.
\<close>

definition uploadToGridFS :: "env \<Rightarrow> db \<Rightarrow> string \<Rightarrow> string \<Rightarrow> (string + nat) option \<times> db" where
  "uploadToGridFS e s filePath name =
     (case fails e (GridFSUpload name) of
        Some m \<Rightarrow> (Some (Inl m), s)
      | None \<Rightarrow>
          (case createReadStream e s filePath of
             Some m \<Rightarrow> (None, s)
           | None \<Rightarrow>
               if objectId e \<in> set (map fst (photos s)) then (Some (Inl ''duplicate key''), s)
               else (Some (Inr (objectId e)), s\<lparr>photos := photos s @ [(objectId e, name)]\<rparr>)))"

definition bucket_find :: "db \<Rightarrow> string \<Rightarrow> (nat \<times> string) list" where
  "bucket_find s name = filter (\<lambda>f. snd f = name) (photos s)"

definition downloadFromGridFS :: "env \<Rightarrow> db \<Rightarrow> string \<Rightarrow> string + bool" where
  "downloadFromGridFS e s name =
     (case fails e (GridFSFind name) of
        Some m \<Rightarrow> Inl m
      | None \<Rightarrow> if length (bucket_find s name) = 0 then Inr False else Inr True)"

definition bucket_delete :: "env \<Rightarrow> db \<Rightarrow> nat \<Rightarrow> (string + unit) \<times> db" where
  "bucket_delete e s i =
     (case fails e (GridFSDelete i) of
        Some m \<Rightarrow> (Inl m, s)
      | None \<Rightarrow>
          if i \<notin> set (map fst (photos s)) then (Inl ''File not found'', s)
          else (Inr (), s\<lparr>photos := filter (\<lambda>f. fst f \<noteq> i) (photos s)\<rparr>))"

text \<open>\<open>for (const file of files) await bucket.delete(file._id)\<close>\<close>

fun delete_each :: "env \<Rightarrow> db \<Rightarrow> nat list \<Rightarrow> (string + unit) \<times> db" where
  "delete_each e s [] = (Inr (), s)"
| "delete_each e s (i # rest) =
     (case bucket_delete e s i of
        (Inl m, s1) \<Rightarrow> (Inl m, s1)
      | (Inr u, s1) \<Rightarrow> delete_each e s1 rest)"

definition deleteFromGridFS :: "env \<Rightarrow> db \<Rightarrow> string \<Rightarrow> (string + unit) \<times> db" where
  "deleteFromGridFS e s name =
     (case fails e (GridFSFind name) of
        Some m \<Rightarrow> (Inl m, s)
      | None \<Rightarrow> delete_each e s (map fst (bucket_find s name)))"

definition unlinkSync :: "env \<Rightarrow> db \<Rightarrow> string \<Rightarrow> (string + unit) \<times> db" where
  "unlinkSync e s name =
     (case fails e (Unlink (local_path name)) of
        Some m \<Rightarrow> (Inl m, s)
      | None \<Rightarrow>
          if name \<notin> uploads s then (Inl ''ENOENT'', s)
          else (Inr (), s\<lparr>uploads := uploads s - {name}\<rparr>))"

text \<open>\<open>GET /uploads/:filename\<close>: the local file first, then the bucket.\<close>

definition get_uploads :: "env \<Rightarrow> db \<Rightarrow> string \<Rightarrow> response" where
  "get_uploads e s name =
     (if name \<in> uploads s then SendFile (local_path name)
      else (case downloadFromGridFS e s name of
              Inl m \<Rightarrow> Error 500 m
            | Inr found \<Rightarrow> if \<not> found then Error 404 ''File not found'' else Stream name))"

subsection \<open>The handlers of the MongoDB variant\<close>

definition get_api_settings :: "env \<Rightarrow> db \<Rightarrow> response" where
  "get_api_settings e s = JsonDoc (getDoc e s ''settings'')"

definition get_api_data :: "env \<Rightarrow> db \<Rightarrow> response" where
  "get_api_data e s = JsonDoc (getDoc e s ''appdata'')"

text \<open>\<open>await createBackup(); await setDoc(key, req.body); res.json({ ok: true })\<close>\<close>

definition post_doc :: "string \<Rightarrow> env \<Rightarrow> db \<Rightarrow> json \<Rightarrow> response \<times> db" where
  "post_doc key e s body =
     (case createBackup e s of
        (Inl m, s1) \<Rightarrow> (Error 500 m, s1)
      | (Inr u, s1) \<Rightarrow>
          (case setDoc e s1 key body of
             (Inl m, s2) \<Rightarrow> (Error 500 m, s2)
           | (Inr v, s2) \<Rightarrow> (OkTrue, s2)))"

definition post_api_settings :: "env \<Rightarrow> db \<Rightarrow> json \<Rightarrow> response \<times> db" where
  "post_api_settings = post_doc ''settings''"

definition post_api_data :: "env \<Rightarrow> db \<Rightarrow> json \<Rightarrow> response \<times> db" where
  "post_api_data = post_doc ''appdata''"

definition summarize :: "env \<Rightarrow> backup \<Rightarrow> summary" where
  "summarize e b =
     \<lparr> s_filename = filename b, s_size = stringifyLength e b,
       s_created = toISOString (created b) \<rparr>"

definition get_api_backups :: "env \<Rightarrow> db \<Rightarrow> response" where
  "get_api_backups e s =
     (case fails e BackupsFind of
        Some m \<Rightarrow> JsonBackups []
      | None \<Rightarrow> JsonBackups (map (summarize e) (sort_created_desc (backups s))))"

definition findOne_backup :: "env \<Rightarrow> db \<Rightarrow> string \<Rightarrow> string + backup option" where
  "findOne_backup e s name =
     (case fails e (BackupsFindOne name) of
        Some m \<Rightarrow> Inl m
      | None \<Rightarrow> Inr (find (\<lambda>b. filename b = name) (backups s)))"

text \<open>\<open>if (v) await setDoc(key, v)\<close>\<close>

definition setDoc_if :: "env \<Rightarrow> db \<Rightarrow> string \<Rightarrow> json \<Rightarrow> (string + unit) \<times> db" where
  "setDoc_if e s key v = (if truthy v then setDoc e s key v else (Inr (), s))"

definition post_api_backups_restore :: "env \<Rightarrow> db \<Rightarrow> string \<Rightarrow> response \<times> db" where
  "post_api_backups_restore e s name =
     (if \<not> startsWith name ''backup-'' \<or> \<not> endsWith name ''.json''
      then (Error 400 ''Invalid backup file'', s)
      else
        (case findOne_backup e s name of
           Inl m \<Rightarrow> (Error 500 m, s)
         | Inr None \<Rightarrow> (Error 404 ''Backup not found'', s)
         | Inr (Some b) \<Rightarrow>
             (case setDoc_if e s ''settings'' (settings b) of
                (Inl m, s1) \<Rightarrow> (Error 500 m, s1)
              | (Inr u, s1) \<Rightarrow>
                  (case setDoc_if e s1 ''appdata'' (appdata b) of
                     (Inl m, s2) \<Rightarrow> (Error 500 m, s2)
                   | (Inr v, s2) \<Rightarrow> (OkTrue, s2)))))"

definition get_api_updates :: "env \<Rightarrow> db \<Rightarrow> response" where
  "get_api_updates e s = JsonUpdates (updates_or_empty (getDoc_updates e s))"

text \<open>
  \<open>POST /api/updates\<close>: the photo reference is set before the copy into the bucket is
  tried, and the inner \<open>catch\<close> only logs a rejection of the copy. The handler goes on
  once the promise of \<open>uploadToGridFS\<close> is settled; \<open>None\<close> is the handler waiting for
  ever at this \<open>await\<close>.
\<close>

definition attach_photo :: "env \<Rightarrow> db \<Rightarrow> update \<Rightarrow> upload option \<Rightarrow> update option \<times> db" where
  "attach_photo e s u0 file =
     (case file of
        None \<Rightarrow> (Some u0, s)
      | Some f \<Rightarrow>
          (case uploadToGridFS e s (u_path f) (u_filename f) of
             (None, s1) \<Rightarrow> (None, s1)
           | (Some r, s1) \<Rightarrow> (Some (u0\<lparr>photo := Some (''/uploads/'' @ u_filename f)\<rparr>), s1)))"

definition post_api_updates :: "env \<Rightarrow> db \<Rightarrow> fields \<Rightarrow> upload option \<Rightarrow> response \<times> db" where
  "post_api_updates e s b file =
     (let us = updates_or_empty (getDoc_updates e s)
      in case attach_photo e s (new_update e b) file of
           (None, s1) \<Rightarrow> (Unanswered, s1)
         | (Some u, s1) \<Rightarrow>
             (case setDoc_updates e s1 (u # us) of
                (Inl m, s2) \<Rightarrow> (Error 500 m, s2)
              | (Inr v, s2) \<Rightarrow> (OkUpdate u, s2)))"

text \<open>\<open>update && update.photo\<close>: the photo reference of the record found, when truthy.\<close>

definition attached :: "update option \<Rightarrow> string option" where
  "attached r =
     (case r of
        None \<Rightarrow> None
      | Some u \<Rightarrow> (case photo u of None \<Rightarrow> None | Some p \<Rightarrow> if p \<noteq> [] then Some p else None))"

text \<open>
  The photo clean-up of \<open>DELETE /api/updates/:id\<close>: the local file is unlinked when it
  exists, and an exception of \<open>unlinkSync\<close> leaves the block; the removal from the bucket
  is inside a \<open>try\<close> with an empty \<open>catch\<close>.
\<close>

definition delete_photo :: "env \<Rightarrow> db \<Rightarrow> string \<Rightarrow> (string + unit) \<times> db" where
  "delete_photo e s p =
     (let name = replace_first ''/uploads/'' '''' p in
      case (if name \<in> uploads s then unlinkSync e s name else (Inr (), s)) of
        (Inl m, s1) \<Rightarrow> (Inl m, s1)
      | (Inr u, s1) \<Rightarrow> (Inr (), snd (deleteFromGridFS e s1 name)))"

definition delete_api_updates :: "env \<Rightarrow> db \<Rightarrow> string \<Rightarrow> response \<times> db" where
  "delete_api_updates e s rid =
     (let us = updates_or_empty (getDoc_updates e s);
          r = (case attached (find (\<lambda>u. id_u u = rid) us) of
                 None \<Rightarrow> (Inr (), s)
               | Some p \<Rightarrow> delete_photo e s p)
      in case r of
           (Inl m, s2) \<Rightarrow> (Error 500 m, s2)
         | (Inr u, s2) \<Rightarrow>
             (case setDoc_updates e s2 (filter (\<lambda>u. id_u u \<noteq> rid) us) of
                (Inl m, s3) \<Rightarrow> (Error 500 m, s3)
              | (Inr v, s3) \<Rightarrow> (OkTrue, s3)))"

section \<open>The file variant\<close>

text \<open>
  The state is what the files under \<open>data/\<close> hold: \<open>None\<close> is a file that does not exist.
  A file of the backup directory holds the two snapshots and has a modification time;
  the directory is a list of names with their files, in no particular order. A read
  (\<open>readFileSync\<close> followed by \<open>JSON.parse\<close>) returns what was written, unless it fails.

  The names that the server itself generates (the backup name from \<open>toISOString\<close>, the
  photo name from the clock, the random generator and \<open>path.extname\<close>) hold no path
  separator, so such a name is the name of a file in its directory. The name in a restore
  request is the client's, and the handler follows \<open>path.join\<close> with it.
\<close>

record bfile = snapshot +
  mtime :: date

record disk =
  SETTINGS_FILE :: "json option"
  APPDATA_FILE :: "json option"
  UPDATES_FILE :: "update list option"
  BACKUP_DIR :: "(string \<times> bfile) list"
  UPLOADS_DIR :: "string set"

definition backup_path :: "string \<Rightarrow> string" where
  "backup_path name = ''data/backups/'' @ name"

text \<open>\<open>fs.existsSync(F) ? JSON.parse(fs.readFileSync(F, 'utf8')) : null\<close>\<close>

definition read_json :: "env \<Rightarrow> string \<Rightarrow> json option \<Rightarrow> string + json" where
  "read_json e path content =
     (case content of
        None \<Rightarrow> Inr JNull
      | Some d \<Rightarrow> (case fails e (ReadFile path) of Some m \<Rightarrow> Inl m | None \<Rightarrow> Inr d))"

definition write_backup :: "env \<Rightarrow> disk \<Rightarrow> string \<Rightarrow> bfile \<Rightarrow> (string + unit) \<times> disk" where
  "write_backup e s name f =
     (case fails e (WriteFile (backup_path name)) of
        Some m \<Rightarrow> (Inl m, s)
      | None \<Rightarrow> (Inr (), s\<lparr>BACKUP_DIR := AList.update name f (BACKUP_DIR s)\<rparr>))"

definition readdirSync :: "env \<Rightarrow> disk \<Rightarrow> string + string list" where
  "readdirSync e s =
     (case fails e (ReadDir ''data/backups'') of
        Some m \<Rightarrow> Inl m
      | None \<Rightarrow> Inr (map fst (BACKUP_DIR s)))"

definition unlink_backup :: "env \<Rightarrow> disk \<Rightarrow> string \<Rightarrow> (string + unit) \<times> disk" where
  "unlink_backup e s name =
     (case fails e (Unlink (backup_path name)) of
        Some m \<Rightarrow> (Inl m, s)
      | None \<Rightarrow>
          if map_of (BACKUP_DIR s) name = None then (Inl ''ENOENT'', s)
          else (Inr (), s\<lparr>BACKUP_DIR := AList.delete name (BACKUP_DIR s)\<rparr>))"

text \<open>\<open>while (files.length > MAX_BACKUPS) fs.unlinkSync(path.join(BACKUP_DIR, files.shift()))\<close>\<close>

fun evict :: "env \<Rightarrow> disk \<Rightarrow> string list \<Rightarrow> (string + unit) \<times> disk" where
  "evict e s [] = (Inr (), s)"
| "evict e s (f # rest) =
     (if length (f # rest) > MAX_BACKUPS then
        (case unlink_backup e s f of
           (Inl m, s1) \<Rightarrow> (Inl m, s1)
         | (Inr u, s1) \<Rightarrow> evict e s1 rest)
      else (Inr (), s))"

text \<open>
  \<open>.filter(f => f.startsWith('backup-') && f.endsWith('.json')).sort()\<close>: the order of
  \<open>sort()\<close> is the order of the code units, here of the bytes of the name.
\<close>

definition backup_files :: "string list \<Rightarrow> string list" where
  "backup_files names = sort (filter valid_backup_name names)"

text \<open>The end of the \<open>try\<close> block, after the backup file is written.\<close>

definition enforce_limit_fs :: "env \<Rightarrow> disk \<Rightarrow> (string + unit) \<times> disk" where
  "enforce_limit_fs e s =
     (case readdirSync e s of
        Inl m \<Rightarrow> (Inl m, s)
      | Inr names \<Rightarrow> evict e s (backup_files names))"

definition new_bfile :: "env \<Rightarrow> json \<Rightarrow> json \<Rightarrow> bfile" where
  "new_bfile e settingsData appData =
     \<lparr> settings = settingsData, appdata = appData, mtime = now e \<rparr>"

definition createBackup_fs_try :: "env \<Rightarrow> disk \<Rightarrow> (string + unit) \<times> disk" where
  "createBackup_fs_try e s =
     (case read_json e ''data/settings.json'' (SETTINGS_FILE s) of
        Inl m \<Rightarrow> (Inl m, s)
      | Inr settingsData \<Rightarrow>
          (case read_json e ''data/appdata.json'' (APPDATA_FILE s) of
             Inl m \<Rightarrow> (Inl m, s)
           | Inr appData \<Rightarrow>
               if \<not> truthy settingsData \<and> \<not> truthy appData then (Inr (), s)
               else
                 (case write_backup e s (backup_name (now e)) (new_bfile e settingsData appData) of
                    (Inl m, s1) \<Rightarrow> (Inl m, s1)
                  | (Inr u, s1) \<Rightarrow> enforce_limit_fs e s1)))"

definition createBackup_fs :: "env \<Rightarrow> disk \<Rightarrow> (string + unit) \<times> disk" where
  "createBackup_fs e s =
     (case createBackup_fs_try e s of
        (Inl m, s1) \<Rightarrow> (Inr (), s1)
      | (Inr u, s1) \<Rightarrow> (Inr u, s1))"

subsection \<open>The handlers of the file variant\<close>

definition json_or_null :: "string + json \<Rightarrow> json" where
  "json_or_null r = (case r of Inl m \<Rightarrow> JNull | Inr d \<Rightarrow> d)"

definition get_api_settings_fs :: "env \<Rightarrow> disk \<Rightarrow> response" where
  "get_api_settings_fs e s = JsonDoc (json_or_null (read_json e ''data/settings.json'' (SETTINGS_FILE s)))"

definition get_api_data_fs :: "env \<Rightarrow> disk \<Rightarrow> response" where
  "get_api_data_fs e s = JsonDoc (json_or_null (read_json e ''data/appdata.json'' (APPDATA_FILE s)))"

definition write_settings :: "env \<Rightarrow> disk \<Rightarrow> json \<Rightarrow> (string + unit) \<times> disk" where
  "write_settings e s d =
     (case fails e (WriteFile ''data/settings.json'') of
        Some m \<Rightarrow> (Inl m, s)
      | None \<Rightarrow> (Inr (), s\<lparr>SETTINGS_FILE := Some d\<rparr>))"

definition write_appdata :: "env \<Rightarrow> disk \<Rightarrow> json \<Rightarrow> (string + unit) \<times> disk" where
  "write_appdata e s d =
     (case fails e (WriteFile ''data/appdata.json'') of
        Some m \<Rightarrow> (Inl m, s)
      | None \<Rightarrow> (Inr (), s\<lparr>APPDATA_FILE := Some d\<rparr>))"

definition post_api_settings_fs :: "env \<Rightarrow> disk \<Rightarrow> json \<Rightarrow> response \<times> disk" where
  "post_api_settings_fs e s body =
     (case createBackup_fs e s of
        (Inl m, s1) \<Rightarrow> (Error 500 m, s1)
      | (Inr u, s1) \<Rightarrow>
          (case write_settings e s1 body of
             (Inl m, s2) \<Rightarrow> (Error 500 m, s2)
           | (Inr v, s2) \<Rightarrow> (OkTrue, s2)))"

definition post_api_data_fs :: "env \<Rightarrow> disk \<Rightarrow> json \<Rightarrow> response \<times> disk" where
  "post_api_data_fs e s body =
     (case createBackup_fs e s of
        (Inl m, s1) \<Rightarrow> (Error 500 m, s1)
      | (Inr u, s1) \<Rightarrow>
          (case write_appdata e s1 body of
             (Inl m, s2) \<Rightarrow> (Error 500 m, s2)
           | (Inr v, s2) \<Rightarrow> (OkTrue, s2)))"

text \<open>\<open>{ filename: f, size: stat.size, created: stat.mtime.toISOString() }\<close>\<close>

definition stat_summary :: "env \<Rightarrow> string \<Rightarrow> bfile \<Rightarrow> summary" where
  "stat_summary e name f =
     \<lparr> s_filename = name, s_size = byteLength e (settings f) (appdata f),
       s_created = toISOString (mtime f) \<rparr>"

definition statSync :: "env \<Rightarrow> disk \<Rightarrow> string \<Rightarrow> string + summary" where
  "statSync e s name =
     (case fails e (Stat (backup_path name)) of
        Some m \<Rightarrow> Inl m
      | None \<Rightarrow>
          (case map_of (BACKUP_DIR s) name of
             None \<Rightarrow> Inl ''ENOENT''
           | Some f \<Rightarrow> Inr (stat_summary e name f)))"

fun stat_each :: "env \<Rightarrow> disk \<Rightarrow> string list \<Rightarrow> string + summary list" where
  "stat_each e s [] = Inr []"
| "stat_each e s (f # rest) =
     (case statSync e s f of
        Inl m \<Rightarrow> Inl m
      | Inr x \<Rightarrow> (case stat_each e s rest of Inl m \<Rightarrow> Inl m | Inr xs \<Rightarrow> Inr (x # xs)))"

definition get_api_backups_fs :: "env \<Rightarrow> disk \<Rightarrow> response" where
  "get_api_backups_fs e s =
     (case readdirSync e s of
        Inl m \<Rightarrow> JsonBackups []
      | Inr names \<Rightarrow>
          (case stat_each e s (rev (backup_files names)) of
             Inl m \<Rightarrow> JsonBackups []
           | Inr listed \<Rightarrow> JsonBackups listed))"

definition write_if :: "(env \<Rightarrow> disk \<Rightarrow> json \<Rightarrow> (string + unit) \<times> disk) \<Rightarrow>
    env \<Rightarrow> disk \<Rightarrow> json \<Rightarrow> (string + unit) \<times> disk" where
  "write_if w e s v = (if truthy v then w e s v else (Inr (), s))"

text \<open>
  \<open>path.join(BACKUP_DIR, filename)\<close> joins the two with a separator and normalises the
  path: an empty segment and \<open>.\<close> are dropped, \<open>..\<close> removes the segment before it. The
  segments are those below the directory of the server, the innermost first in \<open>dirs\<close>;
  \<open>None\<close> is a path above that directory.
\<close>

fun split_on :: "char \<Rightarrow> string \<Rightarrow> string list" where
  "split_on c [] = [[]]"
| "split_on c (x # xs) =
     (if x = c then [] # split_on c xs
      else (case split_on c xs of w # ws \<Rightarrow> (x # w) # ws | [] \<Rightarrow> [[x]]))"

fun normalize_under :: "string list \<Rightarrow> string list \<Rightarrow> string list option" where
  "normalize_under dirs [] = Some (rev dirs)"
| "normalize_under dirs (seg # rest) =
     (if seg = [] \<or> seg = ''.'' then normalize_under dirs rest
      else if seg = ''..'' then
        (case dirs of [] \<Rightarrow> None | d # up \<Rightarrow> normalize_under up rest)
      else normalize_under (seg # dirs) rest)"

text \<open>The file that a normalised path names: one of the files of the state, or another.\<close>

datatype target =
    BackupFile string
  | SettingsFile
  | AppdataFile
  | UpdatesFile
  | UploadFile string
  | Elsewhere

definition join_backup_dir :: "string \<Rightarrow> target" where
  "join_backup_dir name =
     (case normalize_under [''backups'', ''data''] (split_on CHR ''/'' name) of
        Some [a, b, n] \<Rightarrow>
          if a = ''data'' \<and> b = ''backups'' then BackupFile n
          else if a = ''data'' \<and> b = ''uploads'' then UploadFile n
          else Elsewhere
      | Some [a, f] \<Rightarrow>
          if a = ''data'' \<and> f = ''settings.json'' then SettingsFile
          else if a = ''data'' \<and> f = ''appdata.json'' then AppdataFile
          else if a = ''data'' \<and> f = ''updates.json'' then UpdatesFile
          else Elsewhere
      | _ \<Rightarrow> Elsewhere)"

text \<open>\<open>v.k\<close> on a parsed JSON value: \<open>undefined\<close>, here null, unless \<open>v\<close> is an object
  with the key; the last of two equal keys is the one \<open>JSON.parse\<close> keeps.\<close>

definition property :: "json \<Rightarrow> string \<Rightarrow> json" where
  "property v k =
     (case v of
        JObj kvs \<Rightarrow> (case map_of (rev kvs) k of Some x \<Rightarrow> x | None \<Rightarrow> JNull)
      | _ \<Rightarrow> JNull)"

text \<open>
  \<open>JSON.parse(fs.readFileSync(filePath, 'utf8'))\<close>, then \<open>backup.settings\<close> and
  \<open>backup.appdata\<close>, for a file that holds the JSON value \<open>v\<close>: reading a property of
  null throws.
\<close>

definition parsed_backup :: "env \<Rightarrow> string \<Rightarrow> json \<Rightarrow> string + json \<times> json" where
  "parsed_backup e path v =
     (case fails e (ReadFile path) of
        Some m \<Rightarrow> Inl m
      | None \<Rightarrow>
          (case v of
             JNull \<Rightarrow> Inl ''Cannot read properties of null''
           | _ \<Rightarrow> Inr (property v ''settings'', property v ''appdata'')))"

text \<open>
  What the restore handler reads at the path: \<open>None\<close> when no file is there. A backup
  file holds its two snapshots; the updates file holds an array, which has neither
  property; an uploaded photo is not a JSON text; a file that is not one of the state's
  is the environment's.
\<close>

definition read_target :: "env \<Rightarrow> disk \<Rightarrow> string \<Rightarrow> target \<Rightarrow> (string + json \<times> json) option" where
  "read_target e s name t =
     (case t of
        BackupFile n \<Rightarrow>
          map_option
            (\<lambda>f. case fails e (ReadFile (backup_path n)) of
                    Some m \<Rightarrow> Inl m
                  | None \<Rightarrow> Inr (settings f, appdata f))
            (map_of (BACKUP_DIR s) n)
      | SettingsFile \<Rightarrow> map_option (parsed_backup e ''data/settings.json'') (SETTINGS_FILE s)
      | AppdataFile \<Rightarrow> map_option (parsed_backup e ''data/appdata.json'') (APPDATA_FILE s)
      | UpdatesFile \<Rightarrow>
          map_option
            (\<lambda>us. case fails e (ReadFile ''data/updates.json'') of
                     Some m \<Rightarrow> Inl m
                   | None \<Rightarrow> Inr (JNull, JNull))
            (UPDATES_FILE s)
      | UploadFile n \<Rightarrow>
          if n \<in> UPLOADS_DIR s then
            Some (case fails e (ReadFile (local_path n)) of
                    Some m \<Rightarrow> Inl m
                  | None \<Rightarrow> Inl ''Unexpected token'')
          else None
      | Elsewhere \<Rightarrow> map_option (parsed_backup e name) (outside e name))"

definition post_api_backups_restore_fs :: "env \<Rightarrow> disk \<Rightarrow> string \<Rightarrow> response \<times> disk" where
  "post_api_backups_restore_fs e s name =
     (if \<not> startsWith name ''backup-'' \<or> \<not> endsWith name ''.json''
      then (Error 400 ''Invalid backup file'', s)
      else
        (case read_target e s name (join_backup_dir name) of
           None \<Rightarrow> (Error 404 ''Backup not found'', s)
         | Some (Inl m) \<Rightarrow> (Error 500 m, s)
         | Some (Inr b) \<Rightarrow>
             (case write_if write_settings e s (fst b) of
                (Inl m, s1) \<Rightarrow> (Error 500 m, s1)
              | (Inr u, s1) \<Rightarrow>
                  (case write_if write_appdata e s1 (snd b) of
                     (Inl m, s2) \<Rightarrow> (Error 500 m, s2)
                   | (Inr v, s2) \<Rightarrow> (OkTrue, s2)))))"

text \<open>\<open>readUpdates\<close> returns the empty array when the file is missing or the read fails.\<close>

definition readUpdates :: "env \<Rightarrow> disk \<Rightarrow> update list" where
  "readUpdates e s =
     (case UPDATES_FILE s of
        None \<Rightarrow> []
      | Some us \<Rightarrow> (case fails e (ReadFile ''data/updates.json'') of Some m \<Rightarrow> [] | None \<Rightarrow> us))"

definition writeUpdates :: "env \<Rightarrow> disk \<Rightarrow> update list \<Rightarrow> (string + unit) \<times> disk" where
  "writeUpdates e s us =
     (case fails e (WriteFile ''data/updates.json'') of
        Some m \<Rightarrow> (Inl m, s)
      | None \<Rightarrow> (Inr (), s\<lparr>UPDATES_FILE := Some us\<rparr>))"

definition get_api_updates_fs :: "env \<Rightarrow> disk \<Rightarrow> response" where
  "get_api_updates_fs e s = JsonUpdates (readUpdates e s)"

text \<open>\<open>photo: req.file ? '/uploads/' + req.file.filename : null\<close>\<close>

definition post_api_updates_fs :: "env \<Rightarrow> disk \<Rightarrow> fields \<Rightarrow> upload option \<Rightarrow> response \<times> disk" where
  "post_api_updates_fs e s b file =
     (let us = readUpdates e s;
          u = (new_update e b)
                \<lparr>photo := (case file of None \<Rightarrow> None | Some f \<Rightarrow> Some (''/uploads/'' @ u_filename f))\<rparr>
      in case writeUpdates e s (u # us) of
           (Inl m, s1) \<Rightarrow> (Error 500 m, s1)
         | (Inr v, s1) \<Rightarrow> (OkUpdate u, s1))"

text \<open>
  \<open>path.join(__dirname, 'data', update.photo)\<close>: a reference \<open>/uploads/name\<close> is the
  file \<open>name\<close> of the uploads directory. The state holds no file under another path, so
  \<open>existsSync\<close> is false for any other reference.
\<close>

definition photo_file :: "string \<Rightarrow> string option" where
  "photo_file p = (if startsWith p ''/uploads/'' then Some (drop (length ''/uploads/'') p) else None)"

definition unlink_upload :: "env \<Rightarrow> disk \<Rightarrow> string \<Rightarrow> (string + unit) \<times> disk" where
  "unlink_upload e s name =
     (case fails e (Unlink (local_path name)) of
        Some m \<Rightarrow> (Inl m, s)
      | None \<Rightarrow>
          if name \<notin> UPLOADS_DIR s then (Inl ''ENOENT'', s)
          else (Inr (), s\<lparr>UPLOADS_DIR := UPLOADS_DIR s - {name}\<rparr>))"

definition delete_photo_fs :: "env \<Rightarrow> disk \<Rightarrow> string \<Rightarrow> (string + unit) \<times> disk" where
  "delete_photo_fs e s p =
     (case photo_file p of
        None \<Rightarrow> (Inr (), s)
      | Some name \<Rightarrow> if name \<in> UPLOADS_DIR s then unlink_upload e s name else (Inr (), s))"

definition delete_api_updates_fs :: "env \<Rightarrow> disk \<Rightarrow> string \<Rightarrow> response \<times> disk" where
  "delete_api_updates_fs e s rid =
     (let us = readUpdates e s;
          r = (case attached (find (\<lambda>u. id_u u = rid) us) of
                 None \<Rightarrow> (Inr (), s)
               | Some p \<Rightarrow> delete_photo_fs e s p)
      in case r of
           (Inl m, s1) \<Rightarrow> (Error 500 m, s1)
         | (Inr u, s1) \<Rightarrow>
             (case writeUpdates e s1 (filter (\<lambda>u. id_u u \<noteq> rid) us) of
                (Inl m, s2) \<Rightarrow> (Error 500 m, s2)
              | (Inr v, s2) \<Rightarrow> (OkTrue, s2)))"

text \<open>\<open>app.use('/uploads', express.static(UPLOADS_DIR))\<close>: the file, or no such resource.\<close>

definition get_uploads_fs :: "disk \<Rightarrow> string \<Rightarrow> response" where
  "get_uploads_fs s name =
     (if name \<in> UPLOADS_DIR s then SendFile (local_path name) else Error 404 ''Not Found'')"

section \<open>Runs of document writes, and the conditions the theorems are stated under\<close>

text \<open>The backups collection answers: no operation on it fails in this request.\<close>

definition backups_available :: "env \<Rightarrow> bool" where
  "backups_available e =
     (fails e BackupsInsertOne = None \<and> fails e BackupsCount = None \<and>
      fails e BackupsFind = None \<and> fails e BackupsDeleteMany = None)"

text \<open>The same for the file variant: the reads that \<open>createBackup\<close> makes and every
  operation on the backup directory succeed.\<close>

definition backup_dir_available :: "env \<Rightarrow> bool" where
  "backup_dir_available e =
     (fails e (ReadFile ''data/settings.json'') = None \<and>
      fails e (ReadFile ''data/appdata.json'') = None \<and>
      fails e (ReadDir ''data/backups'') = None \<and>
      (\<forall>f. fails e (WriteFile (backup_path f)) = None) \<and>
      (\<forall>f. fails e (Unlink (backup_path f)) = None) \<and>
      (\<forall>f. fails e (Stat (backup_path f)) = None))"

text \<open>The backup that \<open>createBackup\<close> inserts in a request with environment \<open>e\<close>.\<close>

definition snapshot_of :: "env \<Rightarrow> db \<Rightarrow> backup" where
  "snapshot_of e s = new_backup e (getDoc e s ''settings'') (getDoc e s ''appdata'')"

text \<open>A backup is taken: one of the two documents read is truthy.\<close>

definition takes_backup :: "env \<Rightarrow> db \<Rightarrow> bool" where
  "takes_backup e s = (truthy (getDoc e s ''settings'') \<or> truthy (getDoc e s ''appdata''))"

definition takes_backup_fs :: "env \<Rightarrow> disk \<Rightarrow> bool" where
  "takes_backup_fs e s =
     (truthy (json_or_null (read_json e ''data/settings.json'' (SETTINGS_FILE s))) \<or>
      truthy (json_or_null (read_json e ''data/appdata.json'' (APPDATA_FILE s))))"

text \<open>A document write, and a run of writes, each in its own environment.\<close>

datatype doc_write = PostSettings json | PostData json

fun write_doc :: "env \<Rightarrow> db \<Rightarrow> doc_write \<Rightarrow> response \<times> db" where
  "write_doc e s (PostSettings body) = post_api_settings e s body"
| "write_doc e s (PostData body) = post_api_data e s body"

fun run_writes :: "db \<Rightarrow> (env \<times> doc_write) list \<Rightarrow> db" where
  "run_writes s [] = s"
| "run_writes s (w # ws) = run_writes (snd (write_doc (fst w) s (snd w))) ws"

fun write_doc_fs :: "env \<Rightarrow> disk \<Rightarrow> doc_write \<Rightarrow> response \<times> disk" where
  "write_doc_fs e s (PostSettings body) = post_api_settings_fs e s body"
| "write_doc_fs e s (PostData body) = post_api_data_fs e s body"

fun run_writes_fs :: "disk \<Rightarrow> (env \<times> doc_write) list \<Rightarrow> disk" where
  "run_writes_fs s [] = s"
| "run_writes_fs s (w # ws) = run_writes_fs (snd (write_doc_fs (fst w) s (snd w))) ws"

text \<open>The names of the backup files in the directory, as both handlers list them.\<close>

definition backup_names :: "disk \<Rightarrow> string list" where
  "backup_names s = backup_files (map fst (BACKUP_DIR s))"

text \<open>The backup file that \<open>createBackup\<close> writes in a request with environment \<open>e\<close>.\<close>

definition snapshot_of_fs :: "env \<Rightarrow> disk \<Rightarrow> bfile" where
  "snapshot_of_fs e s =
     new_bfile e (json_or_null (read_json e ''data/settings.json'' (SETTINGS_FILE s)))
       (json_or_null (read_json e ''data/appdata.json'' (APPDATA_FILE s)))"

text \<open>The backup directory after that file is written.\<close>

definition written_dir :: "env \<Rightarrow> disk \<Rightarrow> (string \<times> bfile) list" where
  "written_dir e s = AList.update (backup_name (now e)) (snapshot_of_fs e s) (BACKUP_DIR s)"

section \<open>Concrete requests and states\<close>

text \<open>An environment in which nothing fails, and a clock reading.\<close>

definition date0 :: date where
  "date0 = \<lparr> getTime = 1770000000020, toISOString = ''2026-02-02T02:40:00.020Z'' \<rparr>"

definition env0 :: env where
  "env0 = \<lparr> fails = (\<lambda>op. None), now = date0, objectId = 20, randomId = ''ml4k2x9q7a1b'',
             stringifyLength = (\<lambda>b. 0), byteLength = (\<lambda>a b. 0),
             outside = (\<lambda>p. None) \<rparr>"

definition settings0 :: json where
  "settings0 = JObj [(''mosque'', JStr ''Masjid''), (''days'', JNum 30)]"

text \<open>Twenty backups, the backup \<open>i\<close> taken at millisecond \<open>i\<close>.\<close>

definition two_digits :: "nat \<Rightarrow> string" where
  "two_digits i = [char_of (48 + i div 10), char_of (48 + i mod 10)]"

definition old_date :: "nat \<Rightarrow> date" where
  "old_date i =
     \<lparr> getTime = 1770000000000 + int i,
       toISOString = ''2026-02-02T02:40:00.0'' @ two_digits i @ ''Z'' \<rparr>"

definition old_backup :: "nat \<Rightarrow> backup" where
  "old_backup i =
     \<lparr> settings = settings0, appdata = JNull, oid = i,
       filename = backup_name (old_date i), created = old_date i \<rparr>"

definition full_db :: db where
  "full_db =
     \<lparr> store = [''settings'' \<mapsto> settings0], updates = None,
       backups = map old_backup [0..<20], photos = [], uploads = {} \<rparr>"

definition empty_db :: db where
  "empty_db =
     \<lparr> store = Map.empty, updates = None, backups = [], photos = [], uploads = {} \<rparr>"

definition old_file :: "nat \<Rightarrow> string \<times> bfile" where
  "old_file i =
     (backup_name (old_date i), \<lparr> settings = settings0, appdata = JNull, mtime = old_date i \<rparr>)"

definition full_disk :: disk where
  "full_disk =
     \<lparr> SETTINGS_FILE = Some settings0, APPDATA_FILE = None, UPDATES_FILE = None,
       BACKUP_DIR = map old_file [0..<20], UPLOADS_DIR = {} \<rparr>"

definition empty_disk :: disk where
  "empty_disk =
     \<lparr> SETTINGS_FILE = None, APPDATA_FILE = None, UPDATES_FILE = None,
       BACKUP_DIR = [], UPLOADS_DIR = {} \<rparr>"

definition writes0 :: "(env \<times> doc_write) list" where
  "writes0 = [(env0, PostSettings settings0), (env0, PostData (JArr [])),
              (env0\<lparr>objectId := 21\<rparr>, PostSettings (JObj []))]"

text \<open>The file names of a listing of backups, in the order of the listing.\<close>

definition listed_names :: "response \<Rightarrow> string list" where
  "listed_names r = (case r of JsonBackups l \<Rightarrow> map s_filename l | _ \<Rightarrow> [])"

text \<open>A store that holds settings and no backup yet, in both variants.\<close>

definition db1 :: db where
  "db1 = empty_db\<lparr>store := [''settings'' \<mapsto> settings0]\<rparr>"

definition disk1 :: disk where
  "disk1 = empty_disk\<lparr>SETTINGS_FILE := Some settings0\<rparr>"

text \<open>An environment in which every operation on the backups fails.\<close>

definition backups_down :: "io_op \<Rightarrow> string option" where
  "backups_down op =
     (case op of
        BackupsInsertOne \<Rightarrow> Some ''connection closed''
      | BackupsCount \<Rightarrow> Some ''connection closed''
      | BackupsFind \<Rightarrow> Some ''connection closed''
      | BackupsDeleteMany \<Rightarrow> Some ''connection closed''
      | ReadDir p \<Rightarrow> Some ''EACCES''
      | WriteFile p \<Rightarrow> (if startsWith p ''data/backups/'' then Some ''EACCES'' else None)
      | _ \<Rightarrow> None)"

definition env_backups_down :: env where
  "env_backups_down = env0\<lparr>fails := backups_down\<rparr>"

text \<open>
  No backup holds two falsy snapshots. \<open>createBackup\<close> skips such a backup, so this
  holds in every state that the handlers reach from a store without backups.
\<close>

definition no_empty_backup :: "db \<Rightarrow> bool" where
  "no_empty_backup s = (\<forall>b \<in> set (backups s). truthy (settings b) \<or> truthy (appdata b))"

definition no_empty_backup_fs :: "disk \<Rightarrow> bool" where
  "no_empty_backup_fs d =
     (\<forall>p \<in> set (BACKUP_DIR d). truthy (settings (snd p)) \<or> truthy (appdata (snd p)))"

text \<open>A backup of the settings alone, and a store that holds it and other documents.\<close>

definition backup7 :: backup where
  "backup7 =
     \<lparr> settings = settings0, appdata = JNull, oid = 7,
       filename = backup_name (old_date 7), created = old_date 7 \<rparr>"

definition db7 :: db where
  "db7 =
     \<lparr> store = [''settings'' \<mapsto> JObj [], ''appdata'' \<mapsto> JArr [JNum 1]], updates = None,
       backups = [backup7], photos = [], uploads = {} \<rparr>"

definition disk7 :: disk where
  "disk7 =
     \<lparr> SETTINGS_FILE = Some (JObj []), APPDATA_FILE = Some (JArr [JNum 1]), UPDATES_FILE = None,
       BACKUP_DIR = [old_file 7], UPLOADS_DIR = {} \<rparr>"

text \<open>An environment in which the lookup of a backup fails.\<close>

definition env_lookup_down :: env where
  "env_lookup_down =
     env0\<lparr>fails := (\<lambda>op. case op of BackupsFindOne n \<Rightarrow> Some ''connection closed''
                                  | ReadFile p \<Rightarrow> Some ''EIO'' | _ \<Rightarrow> None)\<rparr>"

text \<open>A run of writes of the settings, each body in its own environment.\<close>

definition settings_writes :: "(env \<times> json) list \<Rightarrow> (env \<times> doc_write) list" where
  "settings_writes ws = map (\<lambda>w. (fst w, PostSettings (snd w))) ws"

text \<open>An environment in which the write of the documents fails.\<close>

definition env_store_down :: env where
  "env_store_down =
     env0\<lparr>fails := (\<lambda>op. case op of StoreUpdateOne k \<Rightarrow> Some ''connection closed''
                                  | WriteFile p \<Rightarrow> Some ''ENOSPC'' | _ \<Rightarrow> None)\<rparr>"

text \<open>A text field of the request that is missing or empty.\<close>

definition blank :: "string option \<Rightarrow> bool" where
  "blank v = (v = None \<or> v = Some [])"

text \<open>The record that an insert with blank fields and no photo creates.\<close>

definition default_update :: "env \<Rightarrow> update" where
  "default_update e =
     \<lparr> id_u = randomId e, staff = ''Anonymous'', message = '''', type_u = ''general'',
       day = 0, photo = None, timestamp = toISOString (now e) \<rparr>"

text \<open>The feed, as \<open>GET /api/updates\<close> returns it when the read does not fail.\<close>

definition feed :: "db \<Rightarrow> update list" where
  "feed s = updates_or_empty (updates s)"

definition feed_fs :: "disk \<Rightarrow> update list" where
  "feed_fs d = updates_or_empty (UPDATES_FILE d)"

text \<open>The storage of the feed answers: its read and its write succeed.\<close>

definition feed_available :: "env \<Rightarrow> bool" where
  "feed_available e =
     (fails e (StoreFindOne ''updates'') = None \<and> fails e (StoreUpdateOne ''updates'') = None \<and>
      fails e (ReadFile ''data/updates.json'') = None \<and>
      fails e (WriteFile ''data/updates.json'') = None)"

text \<open>Two records of a feed, the first with a photo, and stores that hold them.\<close>

definition update_a :: update where
  "update_a =
     \<lparr> id_u = ''ml4k2x9q000001'', staff = ''Amina'', message = ''Dates delivered'',
       type_u = ''general'', day = 3, photo = Some ''/uploads/1770000000000-ab12cd.jpg'',
       timestamp = ''2026-02-02T02:40:00.000Z'' \<rparr>"

definition update_b :: update where
  "update_b =
     \<lparr> id_u = ''ml4k2x9q000002'', staff = ''Anonymous'', message = '''',
       type_u = ''general'', day = 0, photo = None,
       timestamp = ''2026-02-02T02:41:00.000Z'' \<rparr>"

definition db_feed :: db where
  "db_feed =
     \<lparr> store = Map.empty, updates = Some [update_a, update_b], backups = [],
       photos = [(3, ''1770000000000-ab12cd.jpg'')], uploads = {''1770000000000-ab12cd.jpg''} \<rparr>"

definition disk_feed :: disk where
  "disk_feed =
     \<lparr> SETTINGS_FILE = None, APPDATA_FILE = None, UPDATES_FILE = Some [update_a, update_b],
       BACKUP_DIR = [], UPLOADS_DIR = {''1770000000000-ab12cd.jpg''} \<rparr>"

definition no_fields :: fields where
  "no_fields = \<lparr> f_staff = None, f_message = Some '''', f_type = None, f_day = Some '''' \<rparr>"

text \<open>An uploaded photo, as the multipart middleware hands it to the handler.\<close>

definition photo0 :: upload where
  "photo0 = \<lparr> u_filename = ''1770000000020-zz99yy.jpg'',
              u_path = ''data/uploads/1770000000020-zz99yy.jpg'' \<rparr>"

text \<open>The store once the multipart middleware has written that photo to the local disk.\<close>

definition db_uploaded :: db where
  "db_uploaded = db_feed\<lparr>uploads := insert ''1770000000020-zz99yy.jpg'' (uploads db_feed)\<rparr>"

text \<open>An environment in which the read stream of a local file fails.\<close>

definition env_read_down :: env where
  "env_read_down = env0\<lparr>fails := (\<lambda>op. case op of ReadStream p \<Rightarrow> Some ''EIO'' | _ \<Rightarrow> None)\<rparr>"

text \<open>Environments in which the bucket, and the removal of a local file, fail.\<close>

definition env_gridfs_down :: env where
  "env_gridfs_down =
     env0\<lparr>fails := (\<lambda>op. case op of GridFSUpload n \<Rightarrow> Some ''connection closed''
                                  | GridFSFind n \<Rightarrow> Some ''connection closed''
                                  | GridFSDelete i \<Rightarrow> Some ''connection closed''
                                  | _ \<Rightarrow> None)\<rparr>"

definition env_unlink_down :: env where
  "env_unlink_down = env0\<lparr>fails := (\<lambda>op. case op of Unlink p \<Rightarrow> Some ''EPERM'' | _ \<Rightarrow> None)\<rparr>"

text \<open>The bucket answers: the search and every removal succeed.\<close>

definition gridfs_available :: "env \<Rightarrow> bool" where
  "gridfs_available e =
     ((\<forall>n. fails e (GridFSFind n) = None) \<and> (\<forall>i. fails e (GridFSDelete i) = None))"

text \<open>A settings document that itself has a key \<open>settings\<close>.\<close>

definition disk8 :: disk where
  "disk8 = disk7\<lparr>SETTINGS_FILE := Some (JObj [(''settings'', JObj [(''days'', JNum 1)])])\<rparr>"

section \<open>Properties\<close>

subsection \<open>Lists: what is kept and what is dropped\<close>

lemma filter_notin_prefix:
  "set as \<inter> set bs = {} \<Longrightarrow> filter (\<lambda>x. x \<notin> set as) (as @ bs) = bs"
  by (auto simp: filter_empty_conv filter_id_conv)

lemma filter_notin_take: "distinct xs \<Longrightarrow> filter (\<lambda>x. x \<notin> set (take k xs)) xs = drop k xs"
proof -
  assume d: "distinct xs"
  from d have "distinct (take k xs @ drop k xs)" by simp
  then have disj: "set (take k xs) \<inter> set (drop k xs) = {}" by (simp only: distinct_append)
  from filter_notin_prefix [OF disj] show ?thesis by simp
qed

lemma set_drop_sorted: "distinct xs \<Longrightarrow> set (drop k (sort_key f xs)) = set xs - set (take k (sort_key f xs))"
proof -
  assume d: "distinct xs"
  let ?ys = "sort_key f xs"
  have dy: "distinct ?ys" using d by simp
  have "distinct (take k ?ys @ drop k ?ys)" using dy by simp
  then have disj: "set (take k ?ys) \<inter> set (drop k ?ys) = {}" by (simp only: distinct_append)
  have "set (take k ?ys) \<union> set (drop k ?ys) = set ?ys" by (metis append_take_drop_id set_append)
  then show ?thesis using disj by auto
qed

lemma sorted_take_le_drop:
  "sorted (map f ys) \<Longrightarrow> d \<in> set (take k ys) \<Longrightarrow> r \<in> set (drop k ys) \<Longrightarrow> f d \<le> f r"
proof -
  assume s: "sorted (map f ys)" and d: "d \<in> set (take k ys)" and r: "r \<in> set (drop k ys)"
  have "sorted (map f (take k ys) @ map f (drop k ys))"
    using s by (metis append_take_drop_id map_append)
  then show ?thesis using d r by (auto simp: sorted_append)
qed

lemma filter_oid_notin:
  assumes "distinct (map oid bs)" and "set T \<subseteq> set bs"
  shows "filter (\<lambda>x. oid x \<notin> set (map oid T)) bs = filter (\<lambda>x. x \<notin> set T) bs"
proof (rule filter_cong [OF refl])
  fix x assume x: "x \<in> set bs"
  have inj: "inj_on oid (set bs)" using assms(1) by (simp add: distinct_map)
  show "(oid x \<notin> set (map oid T)) = (x \<notin> set T)"
    using inj x assms(2) by (auto simp: inj_on_def)
qed

lemma kept_newest:
  assumes "distinct (map oid bs)"
  shows "filter (\<lambda>x. oid x \<notin> set (map oid (take k (sort_created bs)))) bs
           = filter (\<lambda>x. x \<notin> set (take k (sort_created bs))) bs"
proof -
  have "set (take k (sort_created bs)) \<subseteq> set bs"
    using set_take_subset [of k "sort_created bs"] by (simp add: sort_created_def)
  then show ?thesis using assms by (rule filter_oid_notin [rotated])
qed

lemma set_kept:
  assumes "distinct (map oid bs)"
  shows "set (filter (\<lambda>x. oid x \<notin> set (map oid (take k (sort_created bs)))) bs)
           = set (drop k (sort_created bs))"
proof -
  have d: "distinct bs" using assms by (simp add: distinct_map)
  have "set (filter (\<lambda>x. oid x \<notin> set (map oid (take k (sort_created bs)))) bs)
          = set (filter (\<lambda>x. x \<notin> set (take k (sort_created bs))) bs)"
    by (simp only: kept_newest [OF assms])
  also have "\<dots> = set bs - set (take k (sort_created bs))" by auto
  also have "\<dots> = set (drop k (sort_created bs))"
    by (simp only: sort_created_def set_drop_sorted [OF d])
  finally show ?thesis .
qed

lemma length_kept:
  assumes "distinct (map oid bs)"
  shows "length (filter (\<lambda>x. oid x \<notin> set (map oid (take k (sort_created bs)))) bs)
           = length bs - k"
proof -
  have d: "distinct bs" using assms by (simp add: distinct_map)
  let ?kept = "filter (\<lambda>x. oid x \<notin> set (map oid (take k (sort_created bs)))) bs"
  have "distinct ?kept" using d by simp
  then have "length ?kept = card (set ?kept)" by (simp only: distinct_card)
  also have "\<dots> = card (set (drop k (sort_created bs)))" by (simp only: set_kept [OF assms])
  also have "\<dots> = length (drop k (sort_created bs))"
    using d by (simp add: distinct_card sort_created_def)
  finally show ?thesis by (simp add: sort_created_def)
qed
subsection \<open>What \<open>createBackup\<close> does to the backups collection\<close>

lemma createBackup_result:
  assumes "backups_available e" and "takes_backup e s"
    and "objectId e \<notin> set (map oid (backups s))"
  shows "createBackup e s =
           (Inr (), s\<lparr>backups :=
              (if length (backups s @ [snapshot_of e s]) > MAX_BACKUPS
               then filter (\<lambda>x. oid x \<notin> set (map oid
                      (take (length (backups s @ [snapshot_of e s]) - MAX_BACKUPS)
                         (sort_created (backups s @ [snapshot_of e s])))))
                      (backups s @ [snapshot_of e s])
               else backups s @ [snapshot_of e s])\<rparr>)"
proof -
  have ins: "insertOne e s (snapshot_of e s) = (Inr (), s\<lparr>backups := backups s @ [snapshot_of e s]\<rparr>)"
    using assms(1,3) by (simp add: insertOne_def backups_available_def snapshot_of_def new_backup_def)
  have lim: "enforce_limit e t =
      (Inr (), if length (backups t) > MAX_BACKUPS
         then t\<lparr>backups := filter (\<lambda>x. oid x \<notin> set (map oid
                      (take (length (backups t) - MAX_BACKUPS) (sort_created (backups t)))))
                      (backups t)\<rparr>
         else t)" for t
    using assms(1)
    by (simp add: enforce_limit_def countDocuments_def find_oldest_def deleteMany_def
        backups_available_def)
  have "createBackup_try e s = enforce_limit e (s\<lparr>backups := backups s @ [snapshot_of e s]\<rparr>)"
    using assms(2) ins
    by (auto simp: createBackup_try_def takes_backup_def snapshot_of_def Let_def)
  then show ?thesis
    by (simp add: createBackup_def lim)
qed

lemma createBackup_skip:
  "\<not> takes_backup e s \<Longrightarrow> createBackup e s = (Inr (), s)"
  by (simp add: createBackup_def createBackup_try_def takes_backup_def Let_def)

lemma insertOne_backups:
  "backups (snd (insertOne e s b)) = backups s \<or>
   (backups (snd (insertOne e s b)) = backups s @ [b] \<and> oid b \<notin> set (map oid (backups s)))"
  by (simp add: insertOne_def split: option.splits)

lemma insertOne_frame: "\<exists>bs. snd (insertOne e s b) = s\<lparr>backups := bs\<rparr>"
proof (cases "fails e BackupsInsertOne = None \<and> oid b \<notin> set (map oid (backups s))")
  case True
  then show ?thesis by (auto simp: insertOne_def)
next
  case False
  then have "snd (insertOne e s b) = s\<lparr>backups := backups s\<rparr>"
    by (auto simp: insertOne_def split: option.splits)
  then show ?thesis by blast
qed

lemma deleteMany_frame: "\<exists>bs. snd (deleteMany e s ids) = s\<lparr>backups := bs\<rparr>"
proof (cases "fails e BackupsDeleteMany")
  case None
  then show ?thesis by (auto simp: deleteMany_def)
next
  case (Some m)
  then have "snd (deleteMany e s ids) = s\<lparr>backups := backups s\<rparr>"
    by (simp add: deleteMany_def)
  then show ?thesis by blast
qed

lemma enforce_limit_frame: "\<exists>bs. snd (enforce_limit e s) = s\<lparr>backups := bs\<rparr>"
proof -
  have same: "\<exists>bs. s = s\<lparr>backups := bs\<rparr>" by (rule exI [of _ "backups s"]) simp
  show ?thesis
    using same deleteMany_frame [of e s]
    by (simp add: enforce_limit_def split: sum.splits)
qed

lemma createBackup_try_frame: "\<exists>bs. snd (createBackup_try e s) = s\<lparr>backups := bs\<rparr>"
proof -
  have same: "\<exists>bs. s = s\<lparr>backups := bs\<rparr>" by (rule exI [of _ "backups s"]) simp
  let ?b = "new_backup e (getDoc e s ''settings'') (getDoc e s ''appdata'')"
  obtain r s1 where ins: "insertOne e s ?b = (r, s1)" by (cases "insertOne e s ?b")
  obtain bs1 where s1: "s1 = s\<lparr>backups := bs1\<rparr>"
    using insertOne_frame [of e s ?b] ins by auto
  obtain bs2 where "snd (enforce_limit e s1) = s1\<lparr>backups := bs2\<rparr>"
    using enforce_limit_frame [of e s1] by blast
  then have lim: "snd (enforce_limit e s1) = s\<lparr>backups := bs2\<rparr>" by (simp add: s1)
  show ?thesis
  proof (cases r)
    case (Inl m)
    then show ?thesis using same ins s1 by (auto simp: createBackup_try_def Let_def)
  next
    case (Inr u)
    then show ?thesis using same ins lim by (auto simp: createBackup_try_def Let_def)
  qed
qed

lemma createBackup_frame: "\<exists>bs. snd (createBackup e s) = s\<lparr>backups := bs\<rparr>"
  using createBackup_try_frame [of e s]
  by (auto simp: createBackup_def split: prod.splits sum.splits)

lemma createBackup_never_throws: "fst (createBackup e s) = Inr ()"
  by (simp add: createBackup_def split: prod.splits sum.splits)

lemma enforce_limit_filter: "\<exists>P. backups (snd (enforce_limit e s)) = filter P (backups s)"
proof -
  have same: "\<exists>P. backups s = filter P (backups s)" by (rule exI [of _ "\<lambda>x. True"]) simp
  have del: "\<exists>P. backups (snd (deleteMany e s ids)) = filter P (backups s)" for ids
  proof (cases "fails e BackupsDeleteMany")
    case None
    then show ?thesis by (auto simp: deleteMany_def)
  next
    case (Some m)
    then show ?thesis using same by (simp add: deleteMany_def)
  qed
  show ?thesis using same del by (simp add: enforce_limit_def split: sum.splits)
qed

lemma createBackup_try_backups:
  "(\<exists>P. backups (snd (createBackup_try e s)) = filter P (backups s)) \<or>
   (objectId e \<notin> set (map oid (backups s)) \<and> takes_backup e s \<and>
    (\<exists>P. backups (snd (createBackup_try e s)) = filter P (backups s @ [snapshot_of e s])))"
proof -
  have same: "\<exists>P. backups s = filter P (backups s)" by (rule exI [of _ "\<lambda>x. True"]) simp
  let ?b = "new_backup e (getDoc e s ''settings'') (getDoc e s ''appdata'')"
  obtain r s1 where ins: "insertOne e s ?b = (r, s1)" by (cases "insertOne e s ?b")
  have b: "oid ?b = objectId e" by (simp add: new_backup_def)
  from insertOne_backups [of e s ?b] ins b
  have s1: "backups s1 = backups s \<or>
      (backups s1 = backups s @ [?b] \<and> objectId e \<notin> set (map oid (backups s)))" by simp
  obtain P where lim: "backups (snd (enforce_limit e s1)) = filter P (backups s1)"
    using enforce_limit_filter [of e s1] by blast
  show ?thesis
  proof (cases "takes_backup e s")
    case False
    then show ?thesis using same by (simp add: createBackup_try_def takes_backup_def Let_def)
  next
    case True
    have key: ?thesis if eq: "backups (snd (createBackup_try e s)) = filter Q (backups s1)" for Q
      using s1
    proof (elim disjE conjE)
      assume "backups s1 = backups s"
      with eq show ?thesis by (intro disjI1 exI [of _ Q]) simp
    next
      assume "backups s1 = backups s @ [?b]" and "objectId e \<notin> set (map oid (backups s))"
      with eq True show ?thesis
        by (intro disjI2 conjI exI [of _ Q]) (simp_all add: snapshot_of_def)
    qed
    show ?thesis
    proof (cases r)
      case (Inl m)
      then have "backups (snd (createBackup_try e s)) = filter (\<lambda>x. True) (backups s1)"
        using True ins by (auto simp: createBackup_try_def takes_backup_def Let_def)
      then show ?thesis by (rule key)
    next
      case (Inr u)
      then have "backups (snd (createBackup_try e s)) = filter P (backups s1)"
        using True ins lim by (auto simp: createBackup_try_def takes_backup_def Let_def)
      then show ?thesis by (rule key)
    qed
  qed
qed

lemma createBackup_backups_try: "backups (snd (createBackup e s)) = backups (snd (createBackup_try e s))"
  by (simp add: createBackup_def split: prod.splits sum.splits)

text \<open>The file ids stay distinct, whatever fails.\<close>

lemma createBackup_distinct:
  assumes "distinct (map oid (backups s))"
  shows "distinct (map oid (backups (snd (createBackup e s))))"
proof -
  have new: "oid (snapshot_of e s) = objectId e" by (simp add: snapshot_of_def new_backup_def)
  from createBackup_try_backups [of e s] show ?thesis
  proof
    assume "\<exists>P. backups (snd (createBackup_try e s)) = filter P (backups s)"
    then show ?thesis using assms by (auto simp: createBackup_backups_try distinct_map_filter)
  next
    assume a: "objectId e \<notin> set (map oid (backups s)) \<and> takes_backup e s \<and>
      (\<exists>P. backups (snd (createBackup_try e s)) = filter P (backups s @ [snapshot_of e s]))"
    then have "distinct (map oid (backups s @ [snapshot_of e s]))"
      using assms new by auto
    then show ?thesis using a by (auto simp only: createBackup_backups_try distinct_map_filter)
  qed
qed

text \<open>No backup holds two falsy snapshots, if none did before.\<close>

lemma createBackup_new_truthy:
  assumes "b \<in> set (backups (snd (createBackup e s)))" and "b \<notin> set (backups s)"
  shows "truthy (settings b) \<or> truthy (appdata b)"
proof -
  from createBackup_try_backups [of e s] show ?thesis
  proof
    assume "\<exists>P. backups (snd (createBackup_try e s)) = filter P (backups s)"
    then show ?thesis using assms by (auto simp: createBackup_backups_try)
  next
    assume a: "objectId e \<notin> set (map oid (backups s)) \<and> takes_backup e s \<and>
      (\<exists>P. backups (snd (createBackup_try e s)) = filter P (backups s @ [snapshot_of e s]))"
    then have "b = snapshot_of e s" using assms
      by (auto simp: createBackup_backups_try split: if_splits)
    then show ?thesis using a by (simp add: snapshot_of_def new_backup_def takes_backup_def)
  qed
qed

lemma createBackup_bound:
  assumes "backups_available e" and "distinct (map oid (backups s))"
    and "length (backups s) \<le> MAX_BACKUPS \<or> (takes_backup e s \<and> objectId e \<notin> set (map oid (backups s)))"
  shows "length (backups (snd (createBackup e s))) \<le> MAX_BACKUPS"
proof (cases "takes_backup e s \<and> objectId e \<notin> set (map oid (backups s))")
  case True
  have new: "oid (snapshot_of e s) = objectId e" by (simp add: snapshot_of_def new_backup_def)
  have d: "distinct (map oid (backups s @ [snapshot_of e s]))"
    using assms(2) True new by auto
  show ?thesis
    using True assms(1) length_kept [OF d]
    by (simp add: createBackup_result del: map_append)
next
  case False
  then have len: "length (backups s) \<le> MAX_BACKUPS" using assms(3) by blast
  from createBackup_try_backups [of e s] False
  obtain P where "backups (snd (createBackup_try e s)) = filter P (backups s)" by blast
  then have "length (backups (snd (createBackup e s))) \<le> length (backups s)"
    by (simp add: createBackup_backups_try)
  then show ?thesis using len by simp
qed

subsection \<open>Document writes\<close>

lemma setDoc_backups: "backups (snd (setDoc e s key d)) = backups s"
  by (simp add: setDoc_def split: option.splits)

lemma post_doc_backups: "backups (snd (post_doc key e s body)) = backups (snd (createBackup e s))"
proof -
  obtain r s1 where c: "createBackup e s = (r, s1)" by (cases "createBackup e s")
  have "backups (snd (post_doc key e s body)) = backups s1"
    using c setDoc_backups [of e s1 key body]
    by (auto simp: post_doc_def split: sum.splits prod.splits)
  then show ?thesis by (simp add: c)
qed

lemma write_doc_backups: "backups (snd (write_doc e s w)) = backups (snd (createBackup e s))"
  by (cases w) (simp_all add: post_api_settings_def post_api_data_def post_doc_backups)

lemma run_writes_bound:
  assumes "\<forall>w \<in> set ws. backups_available (fst w)"
    and "distinct (map oid (backups s))" and "length (backups s) \<le> MAX_BACKUPS"
  shows "length (backups (run_writes s ws)) \<le> MAX_BACKUPS \<and> distinct (map oid (backups (run_writes s ws)))"
  using assms
proof (induction ws arbitrary: s)
  case Nil
  then show ?case by simp
next
  case (Cons w ws)
  let ?s1 = "snd (write_doc (fst w) s (snd w))"
  have av: "backups_available (fst w)" using Cons.prems(1) by simp
  have d: "distinct (map oid (backups ?s1))"
    using createBackup_distinct [OF Cons.prems(2)] by (simp only: write_doc_backups)
  have l: "length (backups ?s1) \<le> MAX_BACKUPS"
    using createBackup_bound [OF av Cons.prems(2)] Cons.prems(3) by (simp add: write_doc_backups)
  have "\<forall>w \<in> set ws. backups_available (fst w)" using Cons.prems(1) by simp
  from Cons.IH [OF this d l] show ?case by simp
qed

subsection \<open>Rotation in the MongoDB variant\<close>

lemma sort_created_desc_set: "set (sort_created_desc bs) = set bs"
  by (simp add: sort_created_desc_def)

lemma sort_created_desc_length: "length (sort_created_desc bs) = length bs"
  by (simp add: sort_created_desc_def)

lemma sort_created_desc_sorted: "sorted (map (\<lambda>b. - getTime (created b)) (sort_created_desc bs))"
  by (simp add: sort_created_desc_def)

lemma rotation_mongo:
  fixes e :: env and s :: db
  defines "al \<equiv> backups s @ [snapshot_of e s]"
  defines "k \<equiv> length al - MAX_BACKUPS"
  defines "s' \<equiv> snd (createBackup e s)"
  assumes av: "backups_available e" and tb: "takes_backup e s"
    and di: "distinct (map oid (backups s))" and fr: "objectId e \<notin> set (map oid (backups s))"
  shows "length (backups s') \<le> MAX_BACKUPS"
    and "length (backups s') = min MAX_BACKUPS (length al)"
    and "set (backups s') = set (drop k (sort_created al))"
    and "set al - set (backups s') = set (take k (sort_created al))"
    and "\<forall>d \<in> set al - set (backups s'). \<forall>r \<in> set (backups s').
           getTime (created d) \<le> getTime (created r)"
proof -
  have new: "oid (snapshot_of e s) = objectId e" by (simp add: snapshot_of_def new_backup_def)
  have d: "distinct (map oid al)" using di fr new by (auto simp: al_def)
  have dl: "distinct al" using d by (simp add: distinct_map)
  have res: "backups s' =
      (if length al > MAX_BACKUPS
       then filter (\<lambda>x. oid x \<notin> set (map oid (take k (sort_created al)))) al else al)"
    unfolding s'_def k_def al_def by (simp add: createBackup_result [OF av tb fr])
  show len: "length (backups s') = min MAX_BACKUPS (length al)"
    using length_kept [OF d, of k] by (simp add: res k_def)
  then show "length (backups s') \<le> MAX_BACKUPS" by simp
  show kept: "set (backups s') = set (drop k (sort_created al))"
  proof (cases "length al > MAX_BACKUPS")
    case True
    then show ?thesis using set_kept [OF d, of k] by (simp add: res)
  next
    case False
    then have "k = 0" by (simp add: k_def)
    then show ?thesis using False by (simp add: res sort_created_def)
  qed
  show gone: "set al - set (backups s') = set (take k (sort_created al))"
  proof -
    have "set (drop k (sort_created al)) = set al - set (take k (sort_created al))"
      unfolding sort_created_def by (rule set_drop_sorted [OF dl])
    moreover have "set (take k (sort_created al)) \<subseteq> set al"
      using set_take_subset [of k "sort_created al"] by (simp add: sort_created_def)
    ultimately show ?thesis using kept by auto
  qed
  have srt: "sorted (map (\<lambda>b. getTime (created b)) (sort_created al))"
    by (simp add: sort_created_def)
  show "\<forall>d \<in> set al - set (backups s'). \<forall>r \<in> set (backups s').
           getTime (created d) \<le> getTime (created r)"
  proof (intro ballI)
    fix d r
    assume "d \<in> set al - set (backups s')" and "r \<in> set (backups s')"
    then have "d \<in> set (take k (sort_created al))" and "r \<in> set (drop k (sort_created al))"
      using gone kept by blast+
    then show "getTime (created d) \<le> getTime (created r)"
      by (rule sorted_take_le_drop [OF srt])
  qed
qed

lemma get_api_backups_ok:
  "fails e BackupsFind = None \<Longrightarrow>
     get_api_backups e s = JsonBackups (map (summarize e) (sort_created_desc (backups s)))"
  by (simp add: get_api_backups_def)

subsection \<open>Rotation in the file variant\<close>

lemma take_over_limit:
  "length (f # rest) > MAX_BACKUPS \<Longrightarrow>
     take (length (f # rest) - MAX_BACKUPS) (f # rest) = f # take (length rest - MAX_BACKUPS) rest"
proof -
  assume "length (f # rest) > MAX_BACKUPS"
  then have "length (f # rest) - MAX_BACKUPS = Suc (length rest - MAX_BACKUPS)" by simp
  then show ?thesis by (simp only: take_Suc_Cons)
qed

lemma delete_as_filter: "AList.delete f al = filter (\<lambda>p. fst p \<noteq> f) al"
  by (induction al) auto

lemma evict_ok:
  assumes un: "\<forall>f. fails e (Unlink (backup_path f)) = None"
  shows "distinct files \<Longrightarrow> set files \<subseteq> fst ` set (BACKUP_DIR s) \<Longrightarrow>
     evict e s files =
       (Inr (), s\<lparr>BACKUP_DIR :=
          filter (\<lambda>p. fst p \<notin> set (take (length files - MAX_BACKUPS) files)) (BACKUP_DIR s)\<rparr>)"
proof (induction files arbitrary: s)
  case Nil
  then show ?case by simp
next
  case (Cons f rest)
  show ?case
  proof (cases "length (f # rest) > MAX_BACKUPS")
    case False
    then show ?thesis by simp
  next
    case True
    let ?s1 = "s\<lparr>BACKUP_DIR := AList.delete f (BACKUP_DIR s)\<rparr>"
    have ex: "map_of (BACKUP_DIR s) f \<noteq> None"
      using Cons.prems(2) by (simp add: map_of_eq_None_iff)
    have ul: "unlink_backup e s f = (Inr (), ?s1)"
      using un ex by (simp add: unlink_backup_def)
    have d: "distinct rest" and nf: "f \<notin> set rest" using Cons.prems(1) by simp_all
    have sub: "set rest \<subseteq> fst ` set (BACKUP_DIR ?s1)"
    proof
      fix x assume x: "x \<in> set rest"
      then have "x \<noteq> f" using nf by auto
      moreover have "x \<in> fst ` set (BACKUP_DIR s)" using x Cons.prems(2) by auto
      ultimately show "x \<in> fst ` set (BACKUP_DIR ?s1)"
        by (auto simp: delete_as_filter)
    qed
    have "evict e s (f # rest) = evict e ?s1 rest"
      using True ul by simp
    also have "\<dots> = (Inr (), ?s1\<lparr>BACKUP_DIR :=
          filter (\<lambda>p. fst p \<notin> set (take (length rest - MAX_BACKUPS) rest)) (BACKUP_DIR ?s1)\<rparr>)"
      by (rule Cons.IH [OF d sub])
    also have "\<dots> = (Inr (), s\<lparr>BACKUP_DIR :=
          filter (\<lambda>p. fst p \<notin> set (take (length (f # rest) - MAX_BACKUPS) (f # rest))) (BACKUP_DIR s)\<rparr>)"
    proof -
      have "filter (\<lambda>p. fst p \<notin> set (take (length rest - MAX_BACKUPS) rest))
              (AList.delete f (BACKUP_DIR s))
          = filter (\<lambda>p. fst p \<notin> set (f # take (length rest - MAX_BACKUPS) rest)) (BACKUP_DIR s)"
        unfolding delete_as_filter filter_filter by (rule filter_cong) auto
      moreover have "take (Suc (length rest) - MAX_BACKUPS) (f # rest)
          = f # take (length rest - MAX_BACKUPS) rest"
        using take_over_limit [OF True] by simp
      ultimately show ?thesis by simp
    qed
    finally show ?thesis .
  qed
qed

lemma backup_files_distinct: "distinct names \<Longrightarrow> distinct (backup_files names)"
  by (simp add: backup_files_def)

lemma backup_files_subset: "set (backup_files names) \<subseteq> set names"
  by (auto simp: backup_files_def)

lemma backup_files_sorted: "sorted (backup_files names)"
  by (simp add: backup_files_def)

lemma backup_files_filter:
  "backup_files (filter P names) = filter P (backup_files names)"
proof -
  have "filter valid_backup_name (filter P names) = filter P (filter valid_backup_name names)"
    by (auto intro: filter_cong)
  then show ?thesis
    by (simp only: backup_files_def filter_sort)
qed

lemma map_fst_filter: "map fst (filter (\<lambda>p. Q (fst p)) al) = filter Q (map fst al)"
  by (induction al) auto

lemma written_dir_distinct:
  "distinct (map fst (BACKUP_DIR s)) \<Longrightarrow> distinct (map fst (written_dir e s))"
  by (simp add: written_dir_def distinct_update)

lemma createBackup_fs_result:
  assumes av: "backup_dir_available e" and tb: "takes_backup_fs e s"
    and di: "distinct (map fst (BACKUP_DIR s))"
  shows "createBackup_fs e s =
     (Inr (), s\<lparr>BACKUP_DIR :=
        filter (\<lambda>p. fst p \<notin> set (take (length (backup_files (map fst (written_dir e s))) - MAX_BACKUPS)
                                      (backup_files (map fst (written_dir e s)))))
          (written_dir e s)\<rparr>)"
proof -
  let ?s1 = "s\<lparr>BACKUP_DIR := written_dir e s\<rparr>"
  let ?files = "backup_files (map fst (written_dir e s))"
  have rs: "read_json e ''data/settings.json'' (SETTINGS_FILE s)
      = Inr (json_or_null (read_json e ''data/settings.json'' (SETTINGS_FILE s)))"
    using av by (simp add: read_json_def backup_dir_available_def json_or_null_def split: option.splits)
  have ra: "read_json e ''data/appdata.json'' (APPDATA_FILE s)
      = Inr (json_or_null (read_json e ''data/appdata.json'' (APPDATA_FILE s)))"
    using av by (simp add: read_json_def backup_dir_available_def json_or_null_def split: option.splits)
  have wr: "write_backup e s (backup_name (now e)) (snapshot_of_fs e s) = (Inr (), ?s1)"
    using av by (simp add: write_backup_def backup_dir_available_def written_dir_def)
  have un: "\<forall>f. fails e (Unlink (backup_path f)) = None"
    using av by (simp add: backup_dir_available_def)
  have dd: "distinct ?files"
    using written_dir_distinct [OF di] by (rule backup_files_distinct)
  have sub: "set ?files \<subseteq> fst ` set (BACKUP_DIR ?s1)"
    using backup_files_subset [of "map fst (written_dir e s)"] by simp
  have lim: "enforce_limit_fs e ?s1 = evict e ?s1 ?files"
    using av by (simp add: enforce_limit_fs_def readdirSync_def backup_dir_available_def)
  have "createBackup_fs_try e s = enforce_limit_fs e ?s1"
    using tb wr
    by (subst createBackup_fs_try_def, subst rs, subst ra)
       (auto simp: takes_backup_fs_def snapshot_of_fs_def)
  then have "createBackup_fs_try e s = evict e ?s1 ?files" by (simp only: lim)
  then show ?thesis
    by (simp add: createBackup_fs_def evict_ok [OF un dd sub])
qed

lemma createBackup_fs_names:
  assumes av: "backup_dir_available e" and tb: "takes_backup_fs e s"
    and di: "distinct (map fst (BACKUP_DIR s))"
  shows "backup_names (snd (createBackup_fs e s)) =
     drop (length (backup_files (map fst (written_dir e s))) - MAX_BACKUPS)
       (backup_files (map fst (written_dir e s)))"
proof -
  let ?files = "backup_files (map fst (written_dir e s))"
  let ?k = "length ?files - MAX_BACKUPS"
  have dd: "distinct ?files"
    using written_dir_distinct [OF di] by (rule backup_files_distinct)
  have "backup_names (snd (createBackup_fs e s))
      = backup_files (map fst (filter (\<lambda>p. fst p \<notin> set (take ?k ?files)) (written_dir e s)))"
    by (simp add: createBackup_fs_result [OF av tb di] backup_names_def)
  also have "\<dots> = filter (\<lambda>n. n \<notin> set (take ?k ?files)) ?files"
    by (simp only: map_fst_filter [of "\<lambda>n. n \<notin> set (take ?k ?files)"] backup_files_filter)
  also have "\<dots> = drop ?k ?files" by (rule filter_notin_take [OF dd])
  finally show ?thesis .
qed

lemma unlink_backup_distinct:
  "distinct (map fst (BACKUP_DIR s)) \<Longrightarrow> distinct (map fst (BACKUP_DIR (snd (unlink_backup e s f))))"
  by (simp add: unlink_backup_def distinct_delete split: option.splits)

lemma evict_distinct:
  "distinct (map fst (BACKUP_DIR s)) \<Longrightarrow> distinct (map fst (BACKUP_DIR (snd (evict e s files))))"
proof (induction files arbitrary: s)
  case Nil
  then show ?case by simp
next
  case (Cons f rest)
  obtain r s1 where ul: "unlink_backup e s f = (r, s1)" by (cases "unlink_backup e s f")
  have d1: "distinct (map fst (BACKUP_DIR s1))"
    using unlink_backup_distinct [OF Cons.prems, of e f] ul by simp
  show ?case
    using Cons.prems d1 Cons.IH [OF d1] ul by (simp split: sum.splits)
qed

lemma read_json_unchanged:
  "(\<exists>m. read_json e path c = Inl m) \<or> read_json e path c = Inr (json_or_null (read_json e path c))"
  by (simp add: read_json_def json_or_null_def split: option.splits)

lemma createBackup_fs_snd: "snd (createBackup_fs e s) = snd (createBackup_fs_try e s)"
  by (simp add: createBackup_fs_def split: prod.splits sum.splits)

lemma createBackup_fs_distinct:
  assumes "distinct (map fst (BACKUP_DIR s))"
  shows "distinct (map fst (BACKUP_DIR (snd (createBackup_fs e s))))"
proof -
  have w: "distinct (map fst (BACKUP_DIR (snd (write_backup e s n f))))" for n f
    using assms by (simp add: write_backup_def distinct_update split: option.splits)
  have l: "distinct (map fst (BACKUP_DIR (snd (enforce_limit_fs e t))))"
    if "distinct (map fst (BACKUP_DIR t))" for t
    using that evict_distinct [OF that] by (simp add: enforce_limit_fs_def split: sum.splits)
  have "distinct (map fst (BACKUP_DIR (snd (createBackup_fs_try e s))))"
  proof -
    have wl: "distinct (map fst (BACKUP_DIR (snd
        (case write_backup e s n f of (Inl m, s1) \<Rightarrow> (Inl m, s1)
         | (Inr u, s1) \<Rightarrow> enforce_limit_fs e s1))))" for n f
    proof (cases "write_backup e s n f")
      case (Pair r s1)
      then have "distinct (map fst (BACKUP_DIR s1))" using w [of n f] by simp
      then show ?thesis using Pair l [of s1] by (simp split: sum.splits)
    qed
    show ?thesis
      using assms wl by (simp add: createBackup_fs_try_def split: sum.splits)
  qed
  then show ?thesis by (simp only: createBackup_fs_snd)
qed

lemma createBackup_fs_skip:
  assumes "backup_dir_available e" and "\<not> takes_backup_fs e s"
  shows "createBackup_fs e s = (Inr (), s)"
proof -
  have rs: "read_json e ''data/settings.json'' (SETTINGS_FILE s)
      = Inr (json_or_null (read_json e ''data/settings.json'' (SETTINGS_FILE s)))"
    using assms(1) by (simp add: read_json_def backup_dir_available_def json_or_null_def split: option.splits)
  have ra: "read_json e ''data/appdata.json'' (APPDATA_FILE s)
      = Inr (json_or_null (read_json e ''data/appdata.json'' (APPDATA_FILE s)))"
    using assms(1) by (simp add: read_json_def backup_dir_available_def json_or_null_def split: option.splits)
  have "createBackup_fs_try e s = (Inr (), s)"
    using assms(2)
    by (subst createBackup_fs_try_def, subst rs, subst ra) (simp add: takes_backup_fs_def)
  then show ?thesis by (simp add: createBackup_fs_def)
qed

lemma createBackup_fs_bound:
  assumes av: "backup_dir_available e" and di: "distinct (map fst (BACKUP_DIR s))"
    and "length (backup_names s) \<le> MAX_BACKUPS \<or> takes_backup_fs e s"
  shows "length (backup_names (snd (createBackup_fs e s))) \<le> MAX_BACKUPS"
proof (cases "takes_backup_fs e s")
  case True
  show ?thesis by (simp add: createBackup_fs_names [OF av True di])
next
  case False
  then show ?thesis using assms(3) by (simp add: createBackup_fs_skip [OF av False])
qed

lemma createBackup_fs_never_throws: "fst (createBackup_fs e s) = Inr ()"
  by (simp add: createBackup_fs_def split: prod.splits sum.splits)

lemma write_doc_fs_dir: "BACKUP_DIR (snd (write_doc_fs e s w)) = BACKUP_DIR (snd (createBackup_fs e s))"
proof -
  obtain r s1 where c: "createBackup_fs e s = (r, s1)" by (cases "createBackup_fs e s")
  have a: "BACKUP_DIR (snd (write_settings e s1 body)) = BACKUP_DIR s1" for body
    by (simp add: write_settings_def split: option.splits)
  have b: "BACKUP_DIR (snd (write_appdata e s1 body)) = BACKUP_DIR s1" for body
    by (simp add: write_appdata_def split: option.splits)
  show ?thesis
  proof (cases w)
    case (PostSettings body)
    then show ?thesis using c a [of body]
      by (auto simp: post_api_settings_fs_def split: sum.splits prod.splits)
  next
    case (PostData body)
    then show ?thesis using c b [of body]
      by (auto simp: post_api_data_fs_def split: sum.splits prod.splits)
  qed
qed

lemma run_writes_fs_bound:
  assumes "\<forall>w \<in> set ws. backup_dir_available (fst w)"
    and "distinct (map fst (BACKUP_DIR s))" and "length (backup_names s) \<le> MAX_BACKUPS"
  shows "length (backup_names (run_writes_fs s ws)) \<le> MAX_BACKUPS \<and>
         distinct (map fst (BACKUP_DIR (run_writes_fs s ws)))"
  using assms
proof (induction ws arbitrary: s)
  case Nil
  then show ?case by simp
next
  case (Cons w ws)
  let ?s1 = "snd (write_doc_fs (fst w) s (snd w))"
  have av: "backup_dir_available (fst w)" using Cons.prems(1) by simp
  have d: "distinct (map fst (BACKUP_DIR ?s1))"
    using createBackup_fs_distinct [OF Cons.prems(2)] by (simp only: write_doc_fs_dir)
  have l: "length (backup_names ?s1) \<le> MAX_BACKUPS"
    using createBackup_fs_bound [OF av Cons.prems(2)] Cons.prems(3)
    by (simp add: write_doc_fs_dir backup_names_def)
  have "\<forall>w \<in> set ws. backup_dir_available (fst w)" using Cons.prems(1) by simp
  from Cons.IH [OF this d l] show ?case by simp
qed

text \<open>The listing of the file variant.\<close>

lemma stat_each_ok:
  assumes "\<forall>f. fails e (Stat (backup_path f)) = None"
  shows "set names \<subseteq> fst ` set (BACKUP_DIR s) \<Longrightarrow>
     stat_each e s names = Inr (map (\<lambda>n. stat_summary e n (the (map_of (BACKUP_DIR s) n))) names)"
proof (induction names)
  case Nil
  then show ?case by simp
next
  case (Cons f rest)
  have "map_of (BACKUP_DIR s) f \<noteq> None" using Cons.prems by (simp add: map_of_eq_None_iff)
  then obtain x where x: "map_of (BACKUP_DIR s) f = Some x" by blast
  have "statSync e s f = Inr (stat_summary e f (the (map_of (BACKUP_DIR s) f)))"
    using assms x by (simp add: statSync_def)
  then show ?case using Cons by simp
qed

lemma get_api_backups_fs_ok:
  assumes "backup_dir_available e"
  shows "get_api_backups_fs e s =
    JsonBackups (map (\<lambda>n. stat_summary e n (the (map_of (BACKUP_DIR s) n))) (rev (backup_names s)))"
proof -
  have st: "\<forall>f. fails e (Stat (backup_path f)) = None"
    using assms by (simp add: backup_dir_available_def)
  have "set (rev (backup_names s)) \<subseteq> fst ` set (BACKUP_DIR s)"
    using backup_files_subset [of "map fst (BACKUP_DIR s)"] by (simp add: backup_names_def)
  from stat_each_ok [OF st this] show ?thesis
    using assms
    by (simp add: get_api_backups_fs_def readdirSync_def backup_dir_available_def backup_names_def)
qed

lemma map_of_filter_fst:
  "map_of (filter (\<lambda>p. Q (fst p)) al) n = (if Q n then map_of al n else None)"
  by (induction al) auto

lemma rotation_fs:
  fixes e :: env and d :: disk
  defines "files \<equiv> backup_files (map fst (written_dir e d))"
  defines "k \<equiv> length files - MAX_BACKUPS"
  defines "d' \<equiv> snd (createBackup_fs e d)"
  assumes av: "backup_dir_available e" and tb: "takes_backup_fs e d"
    and di: "distinct (map fst (BACKUP_DIR d))"
  shows "backup_names d' = drop k files"
    and "length (backup_names d') \<le> MAX_BACKUPS"
    and "\<forall>x \<in> set (take k files). \<forall>y \<in> set (backup_names d'). x \<le> y"
    and "\<forall>n. map_of (BACKUP_DIR d') n =
           (if n \<in> set (take k files) then None else map_of (written_dir e d) n)"
proof -
  show names: "backup_names d' = drop k files"
    unfolding d'_def k_def files_def by (rule createBackup_fs_names [OF av tb di])
  show "length (backup_names d') \<le> MAX_BACKUPS"
    unfolding names by (simp add: k_def)
  have "sorted (map (\<lambda>x. x) files)" by (simp add: files_def backup_files_sorted)
  from sorted_take_le_drop [OF this]
  show "\<forall>x \<in> set (take k files). \<forall>y \<in> set (backup_names d'). x \<le> y"
    unfolding names by blast
  have dir: "BACKUP_DIR d' = filter (\<lambda>p. fst p \<notin> set (take k files)) (written_dir e d)"
    unfolding d'_def k_def files_def by (simp add: createBackup_fs_result [OF av tb di])
  show "\<forall>n. map_of (BACKUP_DIR d') n =
           (if n \<in> set (take k files) then None else map_of (written_dir e d) n)"
    unfolding dir by (simp add: map_of_filter_fst [of "\<lambda>n. n \<notin> set (take k files)"])
qed

subsection \<open>The rotation in terms of the lists themselves\<close>

lemma startsWith_prefix: "startsWith s p = prefix p s"
  unfolding startsWith_def prefix_def
  by (metis append_eq_conv_conj append_take_drop_id)

lemma endsWith_suffix: "endsWith s p = suffix p s"
proof
  assume "endsWith s p"
  then have "s = take (length s - length p) s @ p"
    by (metis append_take_drop_id endsWith_def)
  then show "suffix p s" unfolding suffix_def by blast
next
  assume "suffix p s"
  then obtain r where "s = r @ p" unfolding suffix_def by blast
  then show "endsWith s p" by (simp add: endsWith_def)
qed

lemma valid_backup_name_named:
  "valid_backup_name n = (prefix ''backup-'' n \<and> suffix ''.json'' n)"
  by (simp add: valid_backup_name_def startsWith_prefix endsWith_suffix)

lemma backup_files_named:
  "backup_files names = sort (filter (\<lambda>n. prefix ''backup-'' n \<and> suffix ''.json'' n) names)"
  by (simp add: backup_files_def valid_backup_name_named [abs_def])

lemma snapshot_of_record:
  "snapshot_of e s =
     \<lparr> settings = getDoc e s ''settings'', appdata = getDoc e s ''appdata'', oid = objectId e,
       filename = ''backup-'' @ map (\<lambda>c. if c = CHR '':'' \<or> c = CHR ''.'' then CHR ''-'' else c)
                                  (toISOString (now e)) @ ''.json'',
       created = now e \<rparr>"
  by (simp add: snapshot_of_def new_backup_def backup_name_def replace_colon_dot_def)

lemma written_dir_record:
  assumes "backup_dir_available e"
  shows "written_dir e d =
     AList.update
       (''backup-'' @ map (\<lambda>c. if c = CHR '':'' \<or> c = CHR ''.'' then CHR ''-'' else c)
                         (toISOString (now e)) @ ''.json'')
       \<lparr> settings = (case SETTINGS_FILE d of None \<Rightarrow> JNull | Some v \<Rightarrow> v),
         appdata = (case APPDATA_FILE d of None \<Rightarrow> JNull | Some v \<Rightarrow> v), mtime = now e \<rparr>
       (BACKUP_DIR d)"
proof -
  have rs: "json_or_null (read_json e ''data/settings.json'' (SETTINGS_FILE d))
      = (case SETTINGS_FILE d of None \<Rightarrow> JNull | Some v \<Rightarrow> v)"
    using assms
    by (simp add: read_json_def json_or_null_def backup_dir_available_def split: option.splits)
  have ra: "json_or_null (read_json e ''data/appdata.json'' (APPDATA_FILE d))
      = (case APPDATA_FILE d of None \<Rightarrow> JNull | Some v \<Rightarrow> v)"
    using assms
    by (simp add: read_json_def json_or_null_def backup_dir_available_def split: option.splits)
  show ?thesis
    unfolding written_dir_def snapshot_of_fs_def rs ra
    by (simp add: new_bfile_def backup_name_def replace_colon_dot_def)
qed

lemma summarize_record:
  "summarize e = (\<lambda>b. \<lparr> s_filename = filename b, s_size = stringifyLength e b,
                         s_created = toISOString (created b) \<rparr>)"
  by (rule ext) (simp add: summarize_def)

lemma stat_summary_record:
  "stat_summary e n f =
     \<lparr> s_filename = n, s_size = byteLength e (settings f) (appdata f),
       s_created = toISOString (mtime f) \<rparr>"
  by (simp add: stat_summary_def)

lemma rotation_mongo_kept:
  assumes "backups_available e" and "takes_backup e s"
    and "distinct (map oid (backups s))" and "objectId e \<notin> set (map oid (backups s))"
  shows "set (backups (snd (createBackup e s))) \<subseteq> set (backups s @ [snapshot_of e s])"
    and "distinct (backups (snd (createBackup e s)))"
proof -
  let ?al = "backups s @ [snapshot_of e s]"
  have "set (backups (snd (createBackup e s))) = set (drop (length ?al - MAX_BACKUPS) (sort_created ?al))"
    by (rule rotation_mongo(3) [OF assms])
  moreover have "set (drop (length ?al - MAX_BACKUPS) (sort_created ?al)) \<subseteq> set (sort_created ?al)"
    by (rule set_drop_subset)
  moreover have "set (sort_created ?al) = set ?al" by (simp add: sort_created_def)
  ultimately show "set (backups (snd (createBackup e s))) \<subseteq> set ?al" by simp
  have "distinct (map oid (backups (snd (createBackup e s))))"
    using assms(3) by (rule createBackup_distinct)
  then show "distinct (backups (snd (createBackup e s)))" by (simp add: distinct_map)
qed

lemma listing_mongo:
  assumes "fails e BackupsFind = None"
  shows "\<exists>l. get_api_backups e s =
            JsonBackups (map (\<lambda>b. \<lparr> s_filename = filename b, s_size = stringifyLength e b,
                                     s_created = toISOString (created b) \<rparr>) l) \<and>
          set l = set (backups s) \<and> length l = length (backups s) \<and>
          sorted (map (\<lambda>b. - getTime (created b)) l)"
proof -
  let ?l = "sort_created_desc (backups s)"
  have "get_api_backups e s = JsonBackups (map (summarize e) ?l)"
    using assms by (rule get_api_backups_ok)
  then have "get_api_backups e s =
      JsonBackups (map (\<lambda>b. \<lparr> s_filename = filename b, s_size = stringifyLength e b,
                               s_created = toISOString (created b) \<rparr>) ?l)"
    by (simp only: summarize_record)
  then show ?thesis
    using sort_created_desc_set [of "backups s"] sort_created_desc_length [of "backups s"]
      sort_created_desc_sorted [of "backups s"]
    by blast
qed

lemma rotation_fs_dir:
  fixes e :: env and d :: disk
  defines "files \<equiv> backup_files (map fst (written_dir e d))"
  defines "k \<equiv> length files - MAX_BACKUPS"
  defines "d' \<equiv> snd (createBackup_fs e d)"
  assumes av: "backup_dir_available e" and tb: "takes_backup_fs e d"
    and di: "distinct (map fst (BACKUP_DIR d))"
  shows "length (backup_names d') = min MAX_BACKUPS (length files)"
    and "\<forall>x \<in> set files - fst ` set (BACKUP_DIR d'). \<forall>y \<in> set (backup_names d'). x \<le> y"
    and "\<forall>n \<in> set (backup_names d'). map_of (BACKUP_DIR d') n = map_of (written_dir e d) n"
proof -
  have names: "backup_names d' = drop k files"
    unfolding d'_def k_def files_def by (rule createBackup_fs_names [OF av tb di])
  show "length (backup_names d') = min MAX_BACKUPS (length files)"
    unfolding names by (simp add: k_def)
  have dir: "BACKUP_DIR d' = filter (\<lambda>p. fst p \<notin> set (take k files)) (written_dir e d)"
    unfolding d'_def k_def files_def by (simp add: createBackup_fs_result [OF av tb di])
  have sub: "set files \<subseteq> fst ` set (written_dir e d)"
    using backup_files_subset [of "map fst (written_dir e d)"] by (simp add: files_def)
  have srt: "sorted (map (\<lambda>x. x) files)" by (simp add: files_def backup_files_sorted)
  show "\<forall>x \<in> set files - fst ` set (BACKUP_DIR d'). \<forall>y \<in> set (backup_names d'). x \<le> y"
  proof (intro ballI)
    fix x y
    assume x: "x \<in> set files - fst ` set (BACKUP_DIR d')" and y: "y \<in> set (backup_names d')"
    have "x \<in> set (take k files)"
    proof (rule ccontr)
      assume n: "x \<notin> set (take k files)"
      from x sub obtain p where p: "p \<in> set (written_dir e d)" "fst p = x" by auto
      then have "p \<in> set (BACKUP_DIR d')" using n by (simp add: dir)
      then have "x \<in> fst ` set (BACKUP_DIR d')" using p(2) by force
      then show False using x by simp
    qed
    moreover have "y \<in> set (drop k files)" using y by (simp only: names)
    ultimately show "x \<le> y" by (rule sorted_take_le_drop [OF srt])
  qed
  have dd: "distinct files"
    unfolding files_def using written_dir_distinct [OF di] by (rule backup_files_distinct)
  show "\<forall>n \<in> set (backup_names d'). map_of (BACKUP_DIR d') n = map_of (written_dir e d) n"
  proof
    fix n assume "n \<in> set (backup_names d')"
    then have n: "n \<in> set (drop k files)" by (simp only: names)
    have "distinct (take k files @ drop k files)" using dd by simp
    then have "set (take k files) \<inter> set (drop k files) = {}" by (simp only: distinct_append)
    then have "n \<notin> set (take k files)" using n by blast
    then show "map_of (BACKUP_DIR d') n = map_of (written_dir e d) n"
      unfolding dir by (simp add: map_of_filter_fst [of "\<lambda>n. n \<notin> set (take k files)"])
  qed
qed

lemma length_backup_files:
  "length (backup_files names)
     = length (filter (\<lambda>n. prefix ''backup-'' n \<and> suffix ''.json'' n) names)"
  by (simp add: backup_files_named)

lemma set_backup_files:
  "set (backup_files names)
     = set (filter (\<lambda>n. prefix ''backup-'' n \<and> suffix ''.json'' n) names)"
  by (simp add: backup_files_named)

text \<open>
  C1. After a \<open>createBackup\<close> that takes a backup, with the storage of the backups
  answering, the number of backups is the smaller of 20 and the number there is once the
  new backup is added: at most 20, whatever number existed before. The backups that
  remain are among the earlier ones and the new one. The ones deleted are the first in
  ascending order of creation time (MongoDB variant) or of file name (file variant): none
  of them is newer than a backup that is kept. The listing returns the backups that are
  kept and no other, newest first, each with its file name, its size and its creation
  time. Along any run of document writes the bound, once true, stays true, and the
  listing never has more than 20 entries.

  The statement names the backup files, orders them and builds the entries of the
  listing with the functions of the library (\<open>prefix\<close>, \<open>suffix\<close>, \<open>filter\<close>, \<open>sort\<close>) and
  with the records written out, not with the functions of the handlers.
\<close>

theorem backup_rotation_bound:
  fixes e e2 :: env and s s0 :: db and d d0 :: disk and ws :: "(env \<times> doc_write) list"
  defines "named \<equiv> \<lambda>n. prefix ''backup-'' n \<and> suffix ''.json'' n"
    and "stamp \<equiv> ''backup-'' @ map (\<lambda>c. if c = CHR '':'' \<or> c = CHR ''.'' then CHR ''-'' else c)
                                     (toISOString (now e)) @ ''.json''"
    and "doc \<equiv> \<lambda>key. case fails e (StoreFindOne key) of
                          Some m \<Rightarrow> JNull
                        | None \<Rightarrow> (case store s key of None \<Rightarrow> JNull | Some v \<Rightarrow> v)"
    and "file \<equiv> \<lambda>content. case content of None \<Rightarrow> JNull | Some v \<Rightarrow> v"
  defines "al \<equiv> backups s @
                  [\<lparr> settings = doc ''settings'', appdata = doc ''appdata'',
                     oid = objectId e, filename = stamp, created = now e \<rparr>]"
    and "s' \<equiv> snd (createBackup e s)"
    and "entry \<equiv> \<lambda>b. \<lparr> s_filename = filename b, s_size = stringifyLength e2 b,
                          s_created = toISOString (created b) \<rparr>"
    and "dir \<equiv> AList.update stamp
                  \<lparr> settings = file (SETTINGS_FILE d), appdata = file (APPDATA_FILE d),
                    mtime = now e \<rparr>
                  (BACKUP_DIR d)"
    and "d' \<equiv> snd (createBackup_fs e d)"
  defines "files \<equiv> sort (filter named (map fst dir))"
  assumes a1: "backups_available e"
    and t2: "truthy (doc ''settings'') \<or> truthy (doc ''appdata'')"
    and a3: "distinct (map oid (backups s))" and a4: "objectId e \<notin> set (map oid (backups s))"
    and a5: "fails e2 BackupsFind = None"
    and a6: "backup_dir_available e"
    and t7: "truthy (file (SETTINGS_FILE d)) \<or> truthy (file (APPDATA_FILE d))"
    and a8: "distinct (map fst (BACKUP_DIR d))" and a9: "backup_dir_available e2"
    and a10: "\<forall>w \<in> set ws. backups_available (fst w) \<and> backup_dir_available (fst w)"
    and a11: "distinct (map oid (backups s0))" and a12: "length (backups s0) \<le> 20"
    and a13: "distinct (map fst (BACKUP_DIR d0))"
    and a14: "length (filter named (map fst (BACKUP_DIR d0))) \<le> 20"
  shows "length (backups s') = min 20 (length al) \<and>
         set (backups s') \<subseteq> set al \<and> distinct (backups s') \<and>
         (\<forall>x \<in> set al - set (backups s'). \<forall>y \<in> set (backups s').
            getTime (created x) \<le> getTime (created y)) \<and>
         set (backups s') = set (drop (length al - 20) (sort_key (\<lambda>b. getTime (created b)) al)) \<and>
         (\<exists>l. get_api_backups e2 s' = JsonBackups (map entry l) \<and>
              set l = set (backups s') \<and> length l = length (backups s') \<and>
              sorted (map (\<lambda>b. - getTime (created b)) l)) \<and>
         length (filter named (map fst (BACKUP_DIR d'))) = min 20 (length files) \<and>
         sort (filter named (map fst (BACKUP_DIR d'))) = drop (length files - 20) files \<and>
         (\<forall>n. map_of (BACKUP_DIR d') n =
            (if n \<in> set (take (length files - 20) files) then None else map_of dir n)) \<and>
         (\<forall>x \<in> set files - fst ` set (BACKUP_DIR d').
            \<forall>y \<in> set (filter named (map fst (BACKUP_DIR d'))). x \<le> y) \<and>
         get_api_backups_fs e2 d' =
           JsonBackups (map (\<lambda>n. \<lparr> s_filename = n,
                                    s_size = byteLength e2 (settings (the (map_of dir n)))
                                               (appdata (the (map_of dir n))),
                                    s_created = toISOString (mtime (the (map_of dir n))) \<rparr>)
                          (rev (drop (length files - 20) files))) \<and>
         length (backups (run_writes s0 ws)) \<le> 20 \<and>
         (\<exists>l. get_api_backups e2 (run_writes s0 ws) = JsonBackups (map entry l) \<and>
              set l = set (backups (run_writes s0 ws)) \<and> length l \<le> 20) \<and>
         length (filter named (map fst (BACKUP_DIR (run_writes_fs d0 ws)))) \<le> 20 \<and>
         (\<exists>l. get_api_backups_fs e2 (run_writes_fs d0 ws) = JsonBackups l \<and>
              map s_filename l
                = rev (sort (filter named (map fst (BACKUP_DIR (run_writes_fs d0 ws))))) \<and>
              length l \<le> 20)"
proof -
  have gd: "getDoc e s key = doc key" for key
    by (simp only: getDoc_def doc_def)
  have a2: "takes_backup e s"
    using t2 by (simp only: takes_backup_def gd)
  have rd: "json_or_null (read_json e ''data/settings.json'' content) = file content"
      "json_or_null (read_json e ''data/appdata.json'' content) = file content" for content
    using a6
    by (simp_all add: read_json_def json_or_null_def backup_dir_available_def file_def
        split: option.splits)
  have a7: "takes_backup_fs e d"
    using t7 by (simp only: takes_backup_fs_def rd)
  have nb: "al = backups s @ [snapshot_of e s]"
    by (simp only: al_def stamp_def snapshot_of_record gd)
  have wd: "dir = written_dir e d"
    by (simp only: dir_def stamp_def file_def written_dir_record [OF a6])
  have fl: "files = backup_files (map fst (written_dir e d))"
    by (simp only: files_def named_def wd backup_files_named)
  have nm: "sort (filter named (map fst (BACKUP_DIR t))) = backup_names t" for t
    by (simp only: backup_names_def backup_files_named named_def)
  have ln: "length (filter named (map fst (BACKUP_DIR t))) = length (backup_names t)" for t
    by (simp only: backup_names_def length_backup_files named_def)
  have st: "set (filter named (map fst (BACKUP_DIR t))) = set (backup_names t)" for t
    by (simp only: backup_names_def set_backup_files named_def)
  have mx: "MAX_BACKUPS = 20" by (rule MAX_BACKUPS_def)

  have m1: "length (backups s') = min 20 (length al)"
    using rotation_mongo(2) [OF a1 a2 a3 a4] by (simp only: nb s'_def mx)
  have m2: "set (backups s') \<subseteq> set al" and m2': "distinct (backups s')"
    using rotation_mongo_kept [OF a1 a2 a3 a4] by (simp_all only: nb s'_def)
  have m3: "\<forall>x \<in> set al - set (backups s'). \<forall>y \<in> set (backups s').
            getTime (created x) \<le> getTime (created y)"
    using rotation_mongo(5) [OF a1 a2 a3 a4] by (simp only: nb s'_def)
  have m4: "set (backups s') = set (drop (length al - 20) (sort_key (\<lambda>b. getTime (created b)) al))"
    using rotation_mongo(3) [OF a1 a2 a3 a4] by (simp only: nb s'_def mx sort_created_def)
  have m5: "\<exists>l. get_api_backups e2 s' = JsonBackups (map entry l) \<and>
              set l = set (backups s') \<and> length l = length (backups s') \<and>
              sorted (map (\<lambda>b. - getTime (created b)) l)"
    using listing_mongo [OF a5, of s'] by (simp only: entry_def)

  have names: "backup_names d' = drop (length files - 20) files"
    using rotation_fs(1) [OF a6 a7 a8] by (simp only: fl d'_def mx)
  have f1: "length (filter named (map fst (BACKUP_DIR d'))) = min 20 (length files)"
    using rotation_fs_dir(1) [OF a6 a7 a8] by (simp only: ln fl d'_def mx)
  have f2: "sort (filter named (map fst (BACKUP_DIR d'))) = drop (length files - 20) files"
    by (simp only: nm names)
  have f3: "\<forall>n. map_of (BACKUP_DIR d') n =
            (if n \<in> set (take (length files - 20) files) then None else map_of dir n)"
    unfolding fl d'_def wd by (rule rotation_fs(4) [OF a6 a7 a8, unfolded mx])
  have f4: "\<forall>x \<in> set files - fst ` set (BACKUP_DIR d').
            \<forall>y \<in> set (filter named (map fst (BACKUP_DIR d'))). x \<le> y"
    using rotation_fs_dir(2) [OF a6 a7 a8] by (simp only: st fl d'_def)
  have same: "\<forall>n \<in> set (rev (backup_names d')). map_of (BACKUP_DIR d') n = map_of dir n"
    using rotation_fs_dir(3) [OF a6 a7 a8] by (simp only: set_rev wd d'_def)
  have "get_api_backups_fs e2 d' =
      JsonBackups (map (\<lambda>n. stat_summary e2 n (the (map_of (BACKUP_DIR d') n))) (rev (backup_names d')))"
    using a9 by (rule get_api_backups_fs_ok)
  also have "map (\<lambda>n. stat_summary e2 n (the (map_of (BACKUP_DIR d') n))) (rev (backup_names d'))
      = map (\<lambda>n. stat_summary e2 n (the (map_of dir n))) (rev (backup_names d'))"
    using same by (intro map_cong refl) simp
  finally have f5: "get_api_backups_fs e2 d' =
           JsonBackups (map (\<lambda>n. \<lparr> s_filename = n,
                                    s_size = byteLength e2 (settings (the (map_of dir n)))
                                               (appdata (the (map_of dir n))),
                                    s_created = toISOString (mtime (the (map_of dir n))) \<rparr>)
                          (rev (drop (length files - 20) files)))"
    by (simp only: stat_summary_record names)

  have w1: "\<forall>w \<in> set ws. backups_available (fst w)" using a10 by blast
  have w2: "\<forall>w \<in> set ws. backup_dir_available (fst w)" using a10 by blast
  have l0: "length (backups s0) \<le> MAX_BACKUPS" using a12 by (simp only: mx)
  have r1: "length (backups (run_writes s0 ws)) \<le> 20"
    using run_writes_bound [OF w1 a11 l0] by (simp only: mx)
  obtain l where l: "get_api_backups e2 (run_writes s0 ws) = JsonBackups (map entry l)"
      "set l = set (backups (run_writes s0 ws))" "length l = length (backups (run_writes s0 ws))"
    using listing_mongo [OF a5, of "run_writes s0 ws"] unfolding entry_def by blast
  have r2: "\<exists>l. get_api_backups e2 (run_writes s0 ws) = JsonBackups (map entry l) \<and>
              set l = set (backups (run_writes s0 ws)) \<and> length l \<le> 20"
    using l r1 by auto
  have n0: "length (backup_names d0) \<le> MAX_BACKUPS" using a14 by (simp only: ln mx)
  have r3': "length (backup_names (run_writes_fs d0 ws)) \<le> 20"
    using run_writes_fs_bound [OF w2 a13 n0] by (simp only: mx)
  have r3: "length (filter named (map fst (BACKUP_DIR (run_writes_fs d0 ws)))) \<le> 20"
    using r3' by (simp only: ln)
  let ?fl = "map (\<lambda>n. stat_summary e2 n (the (map_of (BACKUP_DIR (run_writes_fs d0 ws)) n)))
               (rev (backup_names (run_writes_fs d0 ws)))"
  have g: "get_api_backups_fs e2 (run_writes_fs d0 ws) = JsonBackups ?fl"
    using a9 by (rule get_api_backups_fs_ok)
  have g1: "map s_filename ?fl = rev (backup_names (run_writes_fs d0 ws))"
    by (simp add: stat_summary_def comp_def)
  have g2: "length ?fl \<le> 20" using r3' by simp
  have r4: "\<exists>l. get_api_backups_fs e2 (run_writes_fs d0 ws) = JsonBackups l \<and>
              map s_filename l
                = rev (sort (filter named (map fst (BACKUP_DIR (run_writes_fs d0 ws))))) \<and>
              length l \<le> 20"
    using g g1 g2 unfolding nm by blast
  show ?thesis
    using m1 m2 m2' m3 m4 m5 f1 f2 f3 f4 f5 r1 r2 r3 r4
    by (intro conjI) assumption+
qed

subsection \<open>The concrete states\<close>

lemma env0_backups_available: "backups_available env0"
  by (simp add: backups_available_def env0_def)

lemma env0_backup_dir_available: "backup_dir_available env0"
  by (simp add: backup_dir_available_def env0_def)

lemma full_db_oids: "map oid (backups full_db) = [0..<20]"
  by (simp add: full_db_def old_backup_def comp_def map_idI)

lemma full_db_takes_backup: "takes_backup env0 full_db"
  by (simp add: takes_backup_def getDoc_def env0_def full_db_def settings0_def)

lemma full_disk_names: "distinct (map fst (BACKUP_DIR full_disk))"
  by code_simp

lemma full_disk_takes_backup: "takes_backup_fs env0 full_disk"
  by (simp add: takes_backup_fs_def read_json_def json_or_null_def env0_def full_disk_def settings0_def)

lemma writes0_available: "\<forall>w \<in> set writes0. backups_available (fst w) \<and> backup_dir_available (fst w)"
  by (simp add: writes0_def backups_available_def backup_dir_available_def env0_def)

theorem backup_rotation_bound_witness:
  "backups_available env0 \<and> store full_db ''settings'' = Some settings0 \<and> truthy settings0 \<and>
   length (backups full_db) = 20 \<and>
   backup_dir_available env0 \<and> SETTINGS_FILE full_disk = Some settings0 \<and>
   length (BACKUP_DIR full_disk) = 20 \<and>
   length (backups (snd (createBackup env0 full_db))) = 20 \<and>
   ''backup-2026-02-02T02-40-00-000Z.json''
     \<notin> set (map filename (backups (snd (createBackup env0 full_db)))) \<and>
   ''backup-2026-02-02T02-40-00-020Z.json''
     \<in> set (map filename (backups (snd (createBackup env0 full_db)))) \<and>
   length (listed_names (get_api_backups env0 (snd (createBackup env0 full_db)))) = 20 \<and>
   take 2 (listed_names (get_api_backups env0 (snd (createBackup env0 full_db))))
     = [''backup-2026-02-02T02-40-00-020Z.json'', ''backup-2026-02-02T02-40-00-019Z.json''] \<and>
   last (listed_names (get_api_backups env0 (snd (createBackup env0 full_db))))
     = ''backup-2026-02-02T02-40-00-001Z.json'' \<and>
   length (BACKUP_DIR (snd (createBackup_fs env0 full_disk))) = 20 \<and>
   map_of (BACKUP_DIR (snd (createBackup_fs env0 full_disk))) ''backup-2026-02-02T02-40-00-000Z.json''
     = None \<and>
   map_of (BACKUP_DIR (snd (createBackup_fs env0 full_disk))) ''backup-2026-02-02T02-40-00-020Z.json''
     = Some \<lparr> settings = settings0, appdata = JNull, mtime = date0 \<rparr> \<and>
   length (listed_names (get_api_backups_fs env0 (snd (createBackup_fs env0 full_disk)))) = 20 \<and>
   take 2 (listed_names (get_api_backups_fs env0 (snd (createBackup_fs env0 full_disk))))
     = [''backup-2026-02-02T02-40-00-020Z.json'', ''backup-2026-02-02T02-40-00-019Z.json''] \<and>
   last (listed_names (get_api_backups_fs env0 (snd (createBackup_fs env0 full_disk))))
     = ''backup-2026-02-02T02-40-00-001Z.json'' \<and>
   length (backups (run_writes empty_db writes0)) = 2 \<and>
   length (BACKUP_DIR (run_writes_fs empty_disk writes0)) = 1"
proof -
  have named: "length (filter (\<lambda>n. prefix ''backup-'' n \<and> suffix ''.json'' n)
                  (map fst (BACKUP_DIR empty_disk))) \<le> 20"
    by (simp add: empty_disk_def)
  have d: "distinct (map oid (backups full_db))" by (simp only: full_db_oids distinct_upt)
  have f: "objectId env0 \<notin> set (map oid (backups full_db))"
    by (simp add: full_db_oids) (simp add: env0_def)
  have e: "fails env0 BackupsFind = None" by (simp add: env0_def)
  have d0: "distinct (map oid (backups empty_db))" and l0: "length (backups empty_db) \<le> 20"
    by (simp_all add: empty_db_def)
  have f0: "distinct (map fst (BACKUP_DIR empty_disk))"
    by (simp add: empty_disk_def)
  have s1: "store full_db ''settings'' = Some settings0" "truthy settings0"
    and s2: "SETTINGS_FILE full_disk = Some settings0"
    by (simp_all add: full_db_def full_disk_def settings0_def)
  have t2: "truthy (case fails env0 (StoreFindOne ''settings'') of
                      Some m \<Rightarrow> JNull
                    | None \<Rightarrow> (case store full_db ''settings'' of None \<Rightarrow> JNull | Some v \<Rightarrow> v)) \<or>
            truthy (case fails env0 (StoreFindOne ''appdata'') of
                      Some m \<Rightarrow> JNull
                    | None \<Rightarrow> (case store full_db ''appdata'' of None \<Rightarrow> JNull | Some v \<Rightarrow> v))"
    using s1 by (simp add: env0_def)
  have t7: "truthy (case SETTINGS_FILE full_disk of None \<Rightarrow> JNull | Some v \<Rightarrow> v) \<or>
            truthy (case APPDATA_FILE full_disk of None \<Rightarrow> JNull | Some v \<Rightarrow> v)"
    using s1(2) s2 by simp
  note t = backup_rotation_bound [OF env0_backups_available t2 d f e
      env0_backup_dir_available t7 full_disk_names env0_backup_dir_available
      writes0_available d0 l0 f0 named]
  have n: "length (backups full_db) = 20" "length (BACKUP_DIR full_disk) = 20"
    by (simp_all add: full_db_def full_disk_def)
  have 1: "length (backups (snd (createBackup env0 full_db))) = 20"
    using t [THEN conjunct1] by (simp add: n)
  have 2: "''backup-2026-02-02T02-40-00-000Z.json''
     \<notin> set (map filename (backups (snd (createBackup env0 full_db))))"
    by code_simp
  have 3: "''backup-2026-02-02T02-40-00-020Z.json''
     \<in> set (map filename (backups (snd (createBackup env0 full_db))))"
    by code_simp
  have 4: "length (listed_names (get_api_backups env0 (snd (createBackup env0 full_db)))) = 20"
    by code_simp
  have 5: "take 2 (listed_names (get_api_backups env0 (snd (createBackup env0 full_db))))
     = [''backup-2026-02-02T02-40-00-020Z.json'', ''backup-2026-02-02T02-40-00-019Z.json'']"
    by code_simp
  have 6: "last (listed_names (get_api_backups env0 (snd (createBackup env0 full_db))))
     = ''backup-2026-02-02T02-40-00-001Z.json''"
    by code_simp
  have 7: "length (BACKUP_DIR (snd (createBackup_fs env0 full_disk))) = 20"
    by code_simp
  have 8: "map_of (BACKUP_DIR (snd (createBackup_fs env0 full_disk)))
      ''backup-2026-02-02T02-40-00-000Z.json'' = None"
    by code_simp
  have 9: "map_of (BACKUP_DIR (snd (createBackup_fs env0 full_disk)))
      ''backup-2026-02-02T02-40-00-020Z.json''
     = Some \<lparr> settings = settings0, appdata = JNull, mtime = date0 \<rparr>"
    by code_simp
  have 10: "length (listed_names (get_api_backups_fs env0 (snd (createBackup_fs env0 full_disk)))) = 20"
    by code_simp
  have 11: "take 2 (listed_names (get_api_backups_fs env0 (snd (createBackup_fs env0 full_disk))))
     = [''backup-2026-02-02T02-40-00-020Z.json'', ''backup-2026-02-02T02-40-00-019Z.json'']"
    by code_simp
  have 12: "last (listed_names (get_api_backups_fs env0 (snd (createBackup_fs env0 full_disk))))
     = ''backup-2026-02-02T02-40-00-001Z.json''"
    by code_simp
  have 13: "length (backups (run_writes empty_db writes0)) = 2"
    by code_simp
  have 14: "length (BACKUP_DIR (run_writes_fs empty_disk writes0)) = 1"
    by code_simp
  show ?thesis
    using env0_backups_available s1 n(1) env0_backup_dir_available s2 n(2)
      1 2 3 4 5 6 7 8 9 10 11 12 13 14
    by (intro conjI) assumption+
qed

subsection \<open>Nothing to back up\<close>

lemma getDoc_absent: "store s key = None \<Longrightarrow> getDoc e s key = JNull"
  by (simp add: getDoc_def split: option.splits)

lemma createBackup_absent:
  "store s ''settings'' = None \<Longrightarrow> store s ''appdata'' = None \<Longrightarrow> createBackup e s = (Inr (), s)"
  by (simp add: createBackup_skip takes_backup_def getDoc_absent)

lemma createBackup_fs_absent:
  "SETTINGS_FILE d = None \<Longrightarrow> APPDATA_FILE d = None \<Longrightarrow> createBackup_fs e d = (Inr (), d)"
  by (simp add: createBackup_fs_def createBackup_fs_try_def read_json_def)

lemma evict_only_deletes:
  "map_of (BACKUP_DIR (snd (evict e s files))) n = Some f \<Longrightarrow> map_of (BACKUP_DIR s) n = Some f"
proof (induction files arbitrary: s)
  case Nil
  then show ?case by simp
next
  case (Cons g rest)
  obtain r s1 where ul: "unlink_backup e s g = (r, s1)" by (cases "unlink_backup e s g")
  have one: "map_of (BACKUP_DIR s1) n = Some f \<Longrightarrow> map_of (BACKUP_DIR s) n = Some f"
    using ul by (auto simp: unlink_backup_def delete_conv' split: option.splits if_splits)
  show ?case
  proof (cases "length (g # rest) > MAX_BACKUPS")
    case False
    then show ?thesis using Cons.prems by simp
  next
    case True
    show ?thesis
    proof (cases r)
      case (Inl m)
      then show ?thesis using True ul Cons.prems one by simp
    next
      case (Inr u)
      then have "map_of (BACKUP_DIR (snd (evict e s1 rest))) n = Some f"
        using True ul Cons.prems by simp
      then show ?thesis using Cons.IH one by blast
    qed
  qed
qed

lemma createBackup_fs_new:
  assumes "map_of (BACKUP_DIR (snd (createBackup_fs e d))) n = Some f"
    and "map_of (BACKUP_DIR d) n \<noteq> Some f"
  shows "truthy (settings f) \<or> truthy (appdata f)"
proof -
  have lim: "map_of (BACKUP_DIR (snd (enforce_limit_fs e t))) n = Some f \<Longrightarrow>
      map_of (BACKUP_DIR t) n = Some f" for t
    using evict_only_deletes [of e t _ n f]
    by (simp add: enforce_limit_fs_def split: sum.splits)
  have wr: "map_of (BACKUP_DIR (snd (write_backup e d nm g))) n = Some f \<Longrightarrow>
      map_of (BACKUP_DIR d) n = Some f \<or> f = g" for nm g
    by (auto simp: write_backup_def update_conv' split: option.splits if_splits)
  have step: "map_of (BACKUP_DIR (snd
        (case write_backup e d nm g of (Inl m, s1) \<Rightarrow> (Inl m, s1)
         | (Inr u, s1) \<Rightarrow> enforce_limit_fs e s1))) n = Some f \<Longrightarrow> f = g" for nm g
  proof (cases "write_backup e d nm g")
    case (Pair r s1)
    assume a: "map_of (BACKUP_DIR (snd
        (case write_backup e d nm g of (Inl m, s1) \<Rightarrow> (Inl m, s1)
         | (Inr u, s1) \<Rightarrow> enforce_limit_fs e s1))) n = Some f"
    have "map_of (BACKUP_DIR s1) n = Some f"
      using a Pair lim [of s1] by (cases r) simp_all
    then show "f = g" using wr [of nm g] Pair assms(2) by auto
  qed
  have t: "map_of (BACKUP_DIR (snd (createBackup_fs_try e d))) n = Some f"
    using assms(1) by (simp only: createBackup_fs_snd)
  show ?thesis
  proof (rule ccontr)
    assume neg: "\<not> (truthy (settings f) \<or> truthy (appdata f))"
    have "map_of (BACKUP_DIR d) n = Some f"
      using t neg step assms(2)
      by (auto simp: createBackup_fs_try_def new_bfile_def split: sum.splits if_splits dest!: step)
    then show False using assms(2) by simp
  qed
qed

lemma truthy_not_null: "truthy v \<Longrightarrow> v \<noteq> JNull"
  by auto

text \<open>
  C4. When the settings document and the appdata document are both absent,
  \<open>createBackup\<close> returns without an effect: the state after it is the state before it,
  whatever the environment. A backup that exists after \<open>createBackup\<close> and did not exist
  before it never has two null snapshots.
\<close>

theorem createBackup_absent_noop:
  "(store s ''settings'' = None \<and> store s ''appdata'' = None \<longrightarrow>
      createBackup e s = (Inr (), s)) \<and>
   (SETTINGS_FILE d = None \<and> APPDATA_FILE d = None \<longrightarrow>
      createBackup_fs e d = (Inr (), d)) \<and>
   (\<forall>b \<in> set (backups (snd (createBackup e s))). b \<notin> set (backups s) \<longrightarrow>
      \<not> (settings b = JNull \<and> appdata b = JNull)) \<and>
   (\<forall>n f. map_of (BACKUP_DIR (snd (createBackup_fs e d))) n = Some f \<longrightarrow>
      map_of (BACKUP_DIR d) n \<noteq> Some f \<longrightarrow> \<not> (settings f = JNull \<and> appdata f = JNull))"
proof (intro conjI impI ballI allI)
  assume "store s ''settings'' = None \<and> store s ''appdata'' = None"
  then show "createBackup e s = (Inr (), s)" by (simp add: createBackup_absent)
next
  assume "SETTINGS_FILE d = None \<and> APPDATA_FILE d = None"
  then show "createBackup_fs e d = (Inr (), d)" by (simp add: createBackup_fs_absent)
next
  fix b assume "b \<in> set (backups (snd (createBackup e s)))" and "b \<notin> set (backups s)"
  then have "truthy (settings b) \<or> truthy (appdata b)" by (rule createBackup_new_truthy)
  then show "\<not> (settings b = JNull \<and> appdata b = JNull)" by auto
next
  fix n f assume "map_of (BACKUP_DIR (snd (createBackup_fs e d))) n = Some f"
    and "map_of (BACKUP_DIR d) n \<noteq> Some f"
  then have "truthy (settings f) \<or> truthy (appdata f)" by (rule createBackup_fs_new)
  then show "\<not> (settings f = JNull \<and> appdata f = JNull)" by auto
qed

lemma db1_backup: "createBackup env0 db1 = (Inr (), db1\<lparr>backups := [snapshot_of env0 db1]\<rparr>)"
proof -
  have a: "backups_available env0" by (rule env0_backups_available)
  have b: "takes_backup env0 db1"
    by (simp add: takes_backup_def getDoc_def env0_def db1_def empty_db_def settings0_def)
  have c: "objectId env0 \<notin> set (map oid (backups db1))" by (simp add: db1_def empty_db_def)
  show ?thesis
    by (simp add: createBackup_result [OF a b c]) (simp add: db1_def empty_db_def MAX_BACKUPS_def)
qed

theorem createBackup_absent_noop_witness:
  "store empty_db ''settings'' = None \<and> store empty_db ''appdata'' = None \<and>
   createBackup env_backups_down empty_db = (Inr (), empty_db) \<and>
   SETTINGS_FILE empty_disk = None \<and> APPDATA_FILE empty_disk = None \<and>
   createBackup_fs env_backups_down empty_disk = (Inr (), empty_disk) \<and>
   snapshot_of env0 db1 \<in> set (backups (snd (createBackup env0 db1))) \<and>
   snapshot_of env0 db1 \<notin> set (backups db1) \<and>
   \<not> (settings (snapshot_of env0 db1) = JNull \<and> appdata (snapshot_of env0 db1) = JNull)"
proof -
  have h1: "store empty_db ''settings'' = None \<and> store empty_db ''appdata'' = None"
    by (simp add: empty_db_def)
  have h2: "SETTINGS_FILE empty_disk = None \<and> APPDATA_FILE empty_disk = None"
    by (simp add: empty_disk_def)
  have h3: "snapshot_of env0 db1 \<in> set (backups (snd (createBackup env0 db1)))"
    by (simp add: db1_backup)
  have h4: "snapshot_of env0 db1 \<notin> set (backups db1)" by (simp add: db1_def empty_db_def)
  from createBackup_absent_noop [of empty_db env_backups_down empty_disk] h1 h2
  have a: "createBackup env_backups_down empty_db = (Inr (), empty_db)"
    and b: "createBackup_fs env_backups_down empty_disk = (Inr (), empty_disk)" by blast+
  from createBackup_absent_noop [of db1 env0 disk1] h3 h4
  have c: "\<not> (settings (snapshot_of env0 db1) = JNull \<and> appdata (snapshot_of env0 db1) = JNull)"
    by blast
  show ?thesis using h1 h2 h3 h4 a b c by blast
qed

subsection \<open>Failures inside \<open>createBackup\<close>\<close>

lemma createBackup_store: "store (snd (createBackup e s)) = store s"
proof -
  obtain bs where "snd (createBackup e s) = s\<lparr>backups := bs\<rparr>"
    using createBackup_frame [of e s] by blast
  then show ?thesis by simp
qed

lemma post_doc_response:
  "fst (post_doc key e s body) =
     (case fails e (StoreUpdateOne key) of None \<Rightarrow> OkTrue | Some m \<Rightarrow> Error 500 m)"
proof -
  obtain s1 where c: "createBackup e s = (Inr (), s1)"
    using createBackup_never_throws [of e s] by (cases "createBackup e s") simp
  show ?thesis
    by (simp add: post_doc_def c setDoc_def split: option.splits)
qed

lemma post_doc_store:
  "fails e (StoreUpdateOne key) = None \<Longrightarrow> store (snd (post_doc key e s body)) key = Some body"
proof -
  obtain s1 where c: "createBackup e s = (Inr (), s1)"
    using createBackup_never_throws [of e s] by (cases "createBackup e s") simp
  assume "fails e (StoreUpdateOne key) = None"
  then show ?thesis by (simp add: post_doc_def c setDoc_def)
qed

lemma evict_frame: "\<exists>dir. snd (evict e s files) = s\<lparr>BACKUP_DIR := dir\<rparr>"
proof (induction files arbitrary: s)
  case Nil
  show ?case by (rule exI [of _ "BACKUP_DIR s"]) simp
next
  case (Cons f rest)
  have same: "\<exists>dir. s = s\<lparr>BACKUP_DIR := dir\<rparr>" by (rule exI [of _ "BACKUP_DIR s"]) simp
  obtain r s1 where ul: "unlink_backup e s f = (r, s1)" by (cases "unlink_backup e s f")
  obtain dir1 where s1: "s1 = s\<lparr>BACKUP_DIR := dir1\<rparr>"
  proof (cases "fails e (Unlink (backup_path f)) = None \<and> map_of (BACKUP_DIR s) f \<noteq> None")
    case True
    then have "s1 = s\<lparr>BACKUP_DIR := AList.delete f (BACKUP_DIR s)\<rparr>"
      using ul by (auto simp: unlink_backup_def)
    then show ?thesis by (rule that)
  next
    case False
    then have "s1 = s\<lparr>BACKUP_DIR := BACKUP_DIR s\<rparr>"
      using ul by (auto simp: unlink_backup_def split: option.splits)
    then show ?thesis by (rule that)
  qed
  obtain dir2 where "snd (evict e s1 rest) = s1\<lparr>BACKUP_DIR := dir2\<rparr>"
    using Cons.IH [of s1] by blast
  then have rec: "snd (evict e s1 rest) = s\<lparr>BACKUP_DIR := dir2\<rparr>" by (simp add: s1)
  show ?case
  proof (cases "length (f # rest) > MAX_BACKUPS")
    case False
    then show ?thesis using same by simp
  next
    case True
    show ?thesis
    proof (cases r)
      case (Inl m)
      then show ?thesis using True ul s1 by auto
    next
      case (Inr u)
      then show ?thesis using True ul rec by auto
    qed
  qed
qed

lemma createBackup_fs_frame: "\<exists>dir. snd (createBackup_fs e d) = d\<lparr>BACKUP_DIR := dir\<rparr>"
proof -
  have same: "\<exists>dir. d = d\<lparr>BACKUP_DIR := dir\<rparr>" by (rule exI [of _ "BACKUP_DIR d"]) simp
  have lim: "\<exists>dir. snd (enforce_limit_fs e (d\<lparr>BACKUP_DIR := dir1\<rparr>)) = d\<lparr>BACKUP_DIR := dir\<rparr>" for dir1
  proof -
    have a: "\<exists>dir. d\<lparr>BACKUP_DIR := dir1\<rparr> = d\<lparr>BACKUP_DIR := dir\<rparr>" by blast
    have b: "\<exists>dir. snd (evict e (d\<lparr>BACKUP_DIR := dir1\<rparr>) files) = d\<lparr>BACKUP_DIR := dir\<rparr>" for files
      using evict_frame [of e "d\<lparr>BACKUP_DIR := dir1\<rparr>" files] by simp
    show ?thesis using a b by (simp add: enforce_limit_fs_def split: sum.splits)
  qed
  have step: "\<exists>dir. snd (case write_backup e d nm g of (Inl m, s1) \<Rightarrow> (Inl m, s1)
         | (Inr u, s1) \<Rightarrow> enforce_limit_fs e s1) = d\<lparr>BACKUP_DIR := dir\<rparr>" for nm g
  proof (cases "fails e (WriteFile (backup_path nm))")
    case None
    then show ?thesis using lim by (simp add: write_backup_def)
  next
    case (Some m)
    then show ?thesis using same by (simp add: write_backup_def)
  qed
  have "\<exists>dir. snd (createBackup_fs_try e d) = d\<lparr>BACKUP_DIR := dir\<rparr>"
    using same step by (simp add: createBackup_fs_try_def split: sum.splits)
  then show ?thesis by (simp only: createBackup_fs_snd)
qed

lemma post_api_settings_fs_response:
  "fst (post_api_settings_fs e d body) =
     (case fails e (WriteFile ''data/settings.json'') of None \<Rightarrow> OkTrue | Some m \<Rightarrow> Error 500 m)"
proof -
  obtain s1 where c: "createBackup_fs e d = (Inr (), s1)"
    using createBackup_fs_never_throws [of e d] by (cases "createBackup_fs e d") simp
  show ?thesis
    by (simp add: post_api_settings_fs_def c write_settings_def split: option.splits)
qed

lemma post_api_data_fs_response:
  "fst (post_api_data_fs e d body) =
     (case fails e (WriteFile ''data/appdata.json'') of None \<Rightarrow> OkTrue | Some m \<Rightarrow> Error 500 m)"
proof -
  obtain s1 where c: "createBackup_fs e d = (Inr (), s1)"
    using createBackup_fs_never_throws [of e d] by (cases "createBackup_fs e d") simp
  show ?thesis
    by (simp add: post_api_data_fs_def c write_appdata_def split: option.splits)
qed

lemma post_api_settings_fs_file:
  "fails e (WriteFile ''data/settings.json'') = None \<Longrightarrow>
     SETTINGS_FILE (snd (post_api_settings_fs e d body)) = Some body"
proof -
  obtain s1 where c: "createBackup_fs e d = (Inr (), s1)"
    using createBackup_fs_never_throws [of e d] by (cases "createBackup_fs e d") simp
  assume "fails e (WriteFile ''data/settings.json'') = None"
  then show ?thesis by (simp add: post_api_settings_fs_def c write_settings_def)
qed

lemma post_api_data_fs_file:
  "fails e (WriteFile ''data/appdata.json'') = None \<Longrightarrow>
     APPDATA_FILE (snd (post_api_data_fs e d body)) = Some body"
proof -
  obtain s1 where c: "createBackup_fs e d = (Inr (), s1)"
    using createBackup_fs_never_throws [of e d] by (cases "createBackup_fs e d") simp
  assume "fails e (WriteFile ''data/appdata.json'') = None"
  then show ?thesis by (simp add: post_api_data_fs_def c write_appdata_def)
qed

text \<open>
  C10. \<open>createBackup\<close> never throws: whatever fails inside it, it returns normally. The
  response of a document write is decided by the write alone: it is \<open>{ ok: true }\<close>
  when the write of the document succeeds, and the error of that write otherwise; and when
  the write succeeds the document holds the body of the request.
\<close>

theorem createBackup_never_propagates:
  "fst (createBackup e s) = Inr () \<and>
   fst (createBackup_fs e d) = Inr () \<and>
   fst (post_api_settings e s body) =
     (case fails e (StoreUpdateOne ''settings'') of None \<Rightarrow> OkTrue | Some m \<Rightarrow> Error 500 m) \<and>
   fst (post_api_data e s body) =
     (case fails e (StoreUpdateOne ''appdata'') of None \<Rightarrow> OkTrue | Some m \<Rightarrow> Error 500 m) \<and>
   fst (post_api_settings_fs e d body) =
     (case fails e (WriteFile ''data/settings.json'') of None \<Rightarrow> OkTrue | Some m \<Rightarrow> Error 500 m) \<and>
   fst (post_api_data_fs e d body) =
     (case fails e (WriteFile ''data/appdata.json'') of None \<Rightarrow> OkTrue | Some m \<Rightarrow> Error 500 m) \<and>
   (fails e (StoreUpdateOne ''settings'') = None \<longrightarrow>
      store (snd (post_api_settings e s body)) ''settings'' = Some body) \<and>
   (fails e (StoreUpdateOne ''appdata'') = None \<longrightarrow>
      store (snd (post_api_data e s body)) ''appdata'' = Some body) \<and>
   (fails e (WriteFile ''data/settings.json'') = None \<longrightarrow>
      SETTINGS_FILE (snd (post_api_settings_fs e d body)) = Some body) \<and>
   (fails e (WriteFile ''data/appdata.json'') = None \<longrightarrow>
      APPDATA_FILE (snd (post_api_data_fs e d body)) = Some body)"
  using createBackup_never_throws [of e s] createBackup_fs_never_throws [of e d]
    post_doc_response [of "''settings''" e s body] post_doc_response [of "''appdata''" e s body]
    post_api_settings_fs_response [of e d body] post_api_data_fs_response [of e d body]
    post_doc_store [of e "''settings''" s body] post_doc_store [of e "''appdata''" s body]
    post_api_settings_fs_file [of e d body] post_api_data_fs_file [of e d body]
  unfolding post_api_settings_def post_api_data_def
  by (intro conjI impI) assumption+

theorem createBackup_never_propagates_witness:
  "fst (createBackup_try env_backups_down db1) = Inl ''connection closed'' \<and>
   fst (createBackup_fs_try env_backups_down disk1) = Inl ''EACCES'' \<and>
   fst (createBackup env_backups_down db1) = Inr () \<and>
   fst (createBackup_fs env_backups_down disk1) = Inr () \<and>
   fst (post_api_settings env_backups_down db1 (JObj [])) = OkTrue \<and>
   store (snd (post_api_settings env_backups_down db1 (JObj []))) ''settings'' = Some (JObj []) \<and>
   fst (post_api_settings_fs env_backups_down disk1 (JObj [])) = OkTrue \<and>
   SETTINGS_FILE (snd (post_api_settings_fs env_backups_down disk1 (JObj []))) = Some (JObj [])"
proof -
  have f1: "fails env_backups_down (StoreUpdateOne ''settings'') = None"
    and f2: "fails env_backups_down (WriteFile ''data/settings.json'') = None"
    by (simp_all add: env_backups_down_def env0_def backups_down_def startsWith_def)
  have t1: "fst (createBackup_try env_backups_down db1) = Inl ''connection closed''"
    by (simp add: createBackup_try_def insertOne_def getDoc_def env_backups_down_def env0_def
        backups_down_def db1_def empty_db_def settings0_def)
  have t2: "fst (createBackup_fs_try env_backups_down disk1) = Inl ''EACCES''"
    by (simp add: createBackup_fs_try_def write_backup_def read_json_def env_backups_down_def
        env0_def backups_down_def disk1_def empty_disk_def settings0_def startsWith_def
        backup_path_def)
  show ?thesis
    using createBackup_never_propagates [of env_backups_down db1 disk1 "JObj []"] f1 f2 t1 t2
    by simp
qed

subsection \<open>Restoring a backup\<close>

lemma backup_name_valid:
  "startsWith (backup_name d) ''backup-'' \<and> endsWith (backup_name d) ''.json''"
  by (simp add: backup_name_def startsWith_def endsWith_def)

lemma restore_invalid:
  "\<not> startsWith name ''backup-'' \<or> \<not> endsWith name ''.json'' \<Longrightarrow>
     post_api_backups_restore e s name = (Error 400 ''Invalid backup file'', s)"
  by (simp add: post_api_backups_restore_def)

lemma restore_fs_invalid:
  "\<not> startsWith name ''backup-'' \<or> \<not> endsWith name ''.json'' \<Longrightarrow>
     post_api_backups_restore_fs e d name = (Error 400 ''Invalid backup file'', d)"
  by (simp add: post_api_backups_restore_fs_def)

lemma restore_not_found:
  assumes "startsWith name ''backup-''" and "endsWith name ''.json''"
    and "\<forall>b \<in> set (backups s). filename b \<noteq> name"
    and "fails e (BackupsFindOne name) = None"
  shows "post_api_backups_restore e s name = (Error 404 ''Backup not found'', s)"
proof -
  have "find (\<lambda>b. filename b = name) (backups s) = None"
    using assms(3) by (simp add: find_None_iff)
  then show ?thesis
    using assms(1,2,4) by (simp add: post_api_backups_restore_def findOne_backup_def)
qed

lemma split_on_plain: "c \<notin> set s \<Longrightarrow> split_on c s = [s]"
  by (induction s) auto

text \<open>A well-formed name without a separator is a file of the backup directory.\<close>

lemma join_backup_dir_plain:
  assumes "startsWith name ''backup-''" and "CHR ''/'' \<notin> set name"
  shows "join_backup_dir name = BackupFile name"
proof -
  have n: "name \<noteq> []" "name \<noteq> ''.''" "name \<noteq> ''..''"
    using assms(1) by (auto simp: startsWith_def)
  show ?thesis
    using n by (simp add: join_backup_dir_def split_on_plain [OF assms(2)])
qed

lemma restore_fs_not_found:
  assumes "startsWith name ''backup-''" and "endsWith name ''.json''"
    and "CHR ''/'' \<notin> set name" and "map_of (BACKUP_DIR d) name = None"
  shows "post_api_backups_restore_fs e d name = (Error 404 ''Backup not found'', d)"
  using assms
  by (simp add: post_api_backups_restore_fs_def join_backup_dir_plain read_target_def)

text \<open>
  What holds of the names: a name that does not start with \<open>backup-\<close> or does not end
  with \<open>.json\<close> is refused with status 400 and the state is unchanged, in every
  environment, so also in one where the lookup of a backup would fail: no lookup is made.
  A well-formed name that no backup carries is answered with status 404 and the state is
  unchanged; in the file variant, when the name has no path separator.
\<close>

lemma restore_answers:
  "(\<not> startsWith name ''backup-'' \<or> \<not> endsWith name ''.json'' \<longrightarrow>
      post_api_backups_restore e s name = (Error 400 ''Invalid backup file'', s) \<and>
      post_api_backups_restore_fs e d name = (Error 400 ''Invalid backup file'', d)) \<and>
   (startsWith name ''backup-'' \<and> endsWith name ''.json'' \<and>
    (\<forall>b \<in> set (backups s). filename b \<noteq> name) \<and> fails e (BackupsFindOne name) = None \<longrightarrow>
      post_api_backups_restore e s name = (Error 404 ''Backup not found'', s)) \<and>
   (startsWith name ''backup-'' \<and> endsWith name ''.json'' \<and> CHR ''/'' \<notin> set name \<and>
    map_of (BACKUP_DIR d) name = None \<longrightarrow>
      post_api_backups_restore_fs e d name = (Error 404 ''Backup not found'', d))"
  using restore_invalid [of name e s] restore_fs_invalid [of name e d]
    restore_not_found [of name s e] restore_fs_not_found [of name d e]
  by blast

lemma restore_answers_passwd:
  "post_api_backups_restore env_lookup_down db7 ''../etc/passwd''
     = (Error 400 ''Invalid backup file'', db7) \<and>
   post_api_backups_restore_fs env_lookup_down disk7 ''../etc/passwd''
     = (Error 400 ''Invalid backup file'', disk7)"
proof -
  have "\<not> startsWith ''../etc/passwd'' ''backup-''" by (simp add: startsWith_def)
  then show ?thesis using restore_answers [of "''../etc/passwd''" env_lookup_down db7 disk7] by blast
qed

text \<open>
  C5, where the code departs from it. The name \<open>backup-x/../../settings.json\<close> starts
  with \<open>backup-\<close> and ends with \<open>.json\<close>, and no backup carries it. The file variant
  joins it to the backup directory, which yields the path of the settings document, reads
  that file as a backup and answers \<open>{ ok: true }\<close> instead of status 404; when the
  settings document has a key \<open>settings\<close>, its value is written over the document.
\<close>

theorem restore_follows_path_out_of_backups:
  "startsWith ''backup-x/../../settings.json'' ''backup-'' \<and>
   endsWith ''backup-x/../../settings.json'' ''.json'' \<and>
   map_of (BACKUP_DIR disk7) ''backup-x/../../settings.json'' = None \<and>
   join_backup_dir ''backup-x/../../settings.json'' = SettingsFile \<and>
   post_api_backups_restore_fs env0 disk7 ''backup-x/../../settings.json'' = (OkTrue, disk7) \<and>
   post_api_backups_restore_fs env0 disk8 ''backup-x/../../settings.json''
     = (OkTrue, disk8\<lparr>SETTINGS_FILE := Some (JObj [(''days'', JNum 1)])\<rparr>)"
proof -
  have v: "startsWith ''backup-x/../../settings.json'' ''backup-''"
    "endsWith ''backup-x/../../settings.json'' ''.json''"
    by (simp_all add: startsWith_def endsWith_def)
  have n: "map_of (BACKUP_DIR disk7) ''backup-x/../../settings.json'' = None"
    by (simp add: disk7_def old_file_def backup_name_def replace_colon_dot_def old_date_def)
  have j: "join_backup_dir ''backup-x/../../settings.json'' = SettingsFile"
    by (simp add: join_backup_dir_def)
  have r7: "read_target env0 disk7 ''backup-x/../../settings.json'' SettingsFile
      = Some (Inr (JNull, JNull))"
    by (simp add: read_target_def parsed_backup_def property_def env0_def disk7_def)
  have r8: "read_target env0 disk8 ''backup-x/../../settings.json'' SettingsFile
      = Some (Inr (JObj [(''days'', JNum 1)], JNull))"
    by (simp add: read_target_def parsed_backup_def property_def env0_def disk8_def disk7_def)
  have a: "post_api_backups_restore_fs env0 disk7 ''backup-x/../../settings.json'' = (OkTrue, disk7)"
    using v by (simp add: post_api_backups_restore_fs_def j r7 write_if_def)
  have b: "post_api_backups_restore_fs env0 disk8 ''backup-x/../../settings.json''
     = (OkTrue, disk8\<lparr>SETTINGS_FILE := Some (JObj [(''days'', JNum 1)])\<rparr>)"
  proof -
    have w: "fails env0 (WriteFile ''data/settings.json'') = None" by (simp add: env0_def)
    show ?thesis
      using v by (simp add: post_api_backups_restore_fs_def j r8 write_if_def write_settings_def w)
  qed
  show ?thesis using v n j a b by blast
qed

theorem restore_follows_path_out_of_backups_witness:
  "fst (post_api_backups_restore_fs env0 disk7 ''backup-x/../../settings.json'') = OkTrue \<and>
   fst (post_api_backups_restore_fs env0 disk7 ''backup-x/../../settings.json'')
     \<noteq> Error 404 ''Backup not found''"
  using restore_follows_path_out_of_backups by simp

lemma restore_settings_only:
  assumes "startsWith name ''backup-''" and "endsWith name ''.json''"
    and "fails e (BackupsFindOne name) = None"
    and "find (\<lambda>b. filename b = name) (backups s) = Some b"
    and "appdata b = JNull" and "truthy (settings b)"
    and "fails e (StoreUpdateOne ''settings'') = None"
  shows "post_api_backups_restore e s name =
     (OkTrue, s\<lparr>store := (store s)(''settings'' \<mapsto> settings b)\<rparr>)"
  using assms
  by (simp add: post_api_backups_restore_def findOne_backup_def setDoc_if_def setDoc_def)

lemma restore_fs_settings_only:
  assumes "startsWith name ''backup-''" and "endsWith name ''.json''"
    and "CHR ''/'' \<notin> set name" and "map_of (BACKUP_DIR d) name = Some f"
    and "fails e (ReadFile (backup_path name)) = None"
    and "appdata f = JNull" and "truthy (settings f)"
    and "fails e (WriteFile ''data/settings.json'') = None"
  shows "post_api_backups_restore_fs e d name = (OkTrue, d\<lparr>SETTINGS_FILE := Some (settings f)\<rparr>)"
  using assms
  by (simp add: post_api_backups_restore_fs_def join_backup_dir_plain read_target_def
      write_if_def write_settings_def)

lemma no_empty_backup_found:
  "no_empty_backup s \<Longrightarrow> find (\<lambda>b. filename b = name) (backups s) = Some b \<Longrightarrow>
     appdata b = JNull \<Longrightarrow> truthy (settings b)"
  by (auto simp: no_empty_backup_def find_Some_iff)

lemma no_empty_backup_fs_found:
  "no_empty_backup_fs d \<Longrightarrow> map_of (BACKUP_DIR d) name = Some f \<Longrightarrow>
     appdata f = JNull \<Longrightarrow> truthy (settings f)"
  by (auto simp: no_empty_backup_fs_def dest!: map_of_SomeD)

text \<open>The handlers keep the stores free of backups with two falsy snapshots.\<close>

lemma createBackup_no_empty: "no_empty_backup s \<Longrightarrow> no_empty_backup (snd (createBackup e s))"
  unfolding no_empty_backup_def using createBackup_new_truthy [of _ e s] by blast

lemma write_doc_no_empty: "no_empty_backup s \<Longrightarrow> no_empty_backup (snd (write_doc e s w))"
  using createBackup_no_empty [of s e] by (simp add: no_empty_backup_def write_doc_backups)

lemma createBackup_fs_no_empty:
  assumes "no_empty_backup_fs d" and "distinct (map fst (BACKUP_DIR d))"
  shows "no_empty_backup_fs (snd (createBackup_fs e d))"
  unfolding no_empty_backup_fs_def
proof
  fix p assume p: "p \<in> set (BACKUP_DIR (snd (createBackup_fs e d)))"
  have "distinct (map fst (BACKUP_DIR (snd (createBackup_fs e d))))"
    using assms(2) by (rule createBackup_fs_distinct)
  then have m: "map_of (BACKUP_DIR (snd (createBackup_fs e d))) (fst p) = Some (snd p)"
    using p by simp
  show "truthy (settings (snd p)) \<or> truthy (appdata (snd p))"
  proof (cases "map_of (BACKUP_DIR d) (fst p) = Some (snd p)")
    case True
    then have "(fst p, snd p) \<in> set (BACKUP_DIR d)" by (rule map_of_SomeD)
    then show ?thesis using assms(1) by (auto simp: no_empty_backup_fs_def)
  next
    case False
    with m show ?thesis by (rule createBackup_fs_new)
  qed
qed

lemma restore_backups:
  "backups (snd (post_api_backups_restore e s name)) = backups s"
proof -
  have a: "backups (snd (setDoc_if e t key v)) = backups t" for t key v
    by (simp add: setDoc_if_def setDoc_backups)
  have b: "backups (snd (case setDoc_if e t key v of (Inl m, s2) \<Rightarrow> (Error 500 m, s2)
                          | (Inr w, s2) \<Rightarrow> (OkTrue, s2))) = backups t" for t key v
    using a [of t key v] by (cases "setDoc_if e t key v") (simp split: sum.splits)
  have c: "backups (snd (case setDoc_if e s key v of (Inl m, s1) \<Rightarrow> (Error 500 m, s1)
       | (Inr u, s1) \<Rightarrow> (case setDoc_if e s1 key2 v2 of (Inl m, s2) \<Rightarrow> (Error 500 m, s2)
                          | (Inr w, s2) \<Rightarrow> (OkTrue, s2)))) = backups s" for key v key2 v2
    using a [of s key v] b by (cases "setDoc_if e s key v") (simp split: sum.splits)
  show ?thesis
    using c by (simp add: post_api_backups_restore_def split: sum.splits option.splits)
qed

text \<open>
  C2. Restoring a backup whose appdata snapshot is null and whose settings snapshot is
  not: the settings document becomes the snapshot, and nothing else in the state changes,
  so the appdata document is the one from before and no backup is added. The backups are
  those of a store in which no backup holds two falsy snapshots, the lookup and the write
  of the settings succeed; the name is the name of a backup file, which has no path
  separator.
\<close>

theorem restore_is_field_wise:
  assumes "startsWith name ''backup-''" and "endsWith name ''.json''"
    and "no_empty_backup s" and "fails e (BackupsFindOne name) = None"
    and "find (\<lambda>b. filename b = name) (backups s) = Some b"
    and "appdata b = JNull" and "settings b \<noteq> JNull"
    and "fails e (StoreUpdateOne ''settings'') = None"
    and "no_empty_backup_fs d" and "map_of (BACKUP_DIR d) name = Some f"
    and "fails e (ReadFile (backup_path name)) = None"
    and "appdata f = JNull" and "settings f \<noteq> JNull"
    and "fails e (WriteFile ''data/settings.json'') = None"
    and "CHR ''/'' \<notin> set name"
  shows "post_api_backups_restore e s name =
           (OkTrue, s\<lparr>store := (store s)(''settings'' \<mapsto> settings b)\<rparr>) \<and>
         store (snd (post_api_backups_restore e s name)) ''appdata'' = store s ''appdata'' \<and>
         backups (snd (post_api_backups_restore e s name)) = backups s \<and>
         post_api_backups_restore_fs e d name = (OkTrue, d\<lparr>SETTINGS_FILE := Some (settings f)\<rparr>) \<and>
         APPDATA_FILE (snd (post_api_backups_restore_fs e d name)) = APPDATA_FILE d \<and>
         BACKUP_DIR (snd (post_api_backups_restore_fs e d name)) = BACKUP_DIR d"
proof -
  have tb: "truthy (settings b)" using assms(3,5,6) by (rule no_empty_backup_found)
  have tf: "truthy (settings f)" using assms(9,10,12) by (rule no_empty_backup_fs_found)
  have m: "post_api_backups_restore e s name =
           (OkTrue, s\<lparr>store := (store s)(''settings'' \<mapsto> settings b)\<rparr>)"
    using assms(1,2,4,5,6) tb assms(8) by (rule restore_settings_only)
  have d: "post_api_backups_restore_fs e d name = (OkTrue, d\<lparr>SETTINGS_FILE := Some (settings f)\<rparr>)"
    using assms(1,2,15,10,11,12) tf assms(14) by (rule restore_fs_settings_only)
  show ?thesis by (simp add: m d)
qed

theorem restore_is_field_wise_witness:
  "no_empty_backup db7 \<and> no_empty_backup_fs disk7 \<and>
   find (\<lambda>b. filename b = backup_name (old_date 7)) (backups db7) = Some backup7 \<and>
   appdata backup7 = JNull \<and> settings backup7 = settings0 \<and>
   store db7 ''appdata'' = Some (JArr [JNum 1]) \<and>
   post_api_backups_restore env0 db7 (backup_name (old_date 7)) =
     (OkTrue, db7\<lparr>store := (store db7)(''settings'' \<mapsto> settings0)\<rparr>) \<and>
   store (snd (post_api_backups_restore env0 db7 (backup_name (old_date 7)))) ''appdata''
     = Some (JArr [JNum 1]) \<and>
   post_api_backups_restore_fs env0 disk7 (backup_name (old_date 7)) =
     (OkTrue, disk7\<lparr>SETTINGS_FILE := Some settings0\<rparr>) \<and>
   APPDATA_FILE (snd (post_api_backups_restore_fs env0 disk7 (backup_name (old_date 7))))
     = Some (JArr [JNum 1])"
proof -
  have v: "startsWith (backup_name (old_date 7)) ''backup-''"
    "endsWith (backup_name (old_date 7)) ''.json''"
    by (simp_all add: backup_name_def startsWith_def endsWith_def)
  have w: "no_empty_backup db7" "no_empty_backup_fs disk7"
    by (simp_all add: no_empty_backup_def no_empty_backup_fs_def db7_def disk7_def backup7_def
        old_file_def settings0_def)
  have fa: "fails env0 (BackupsFindOne (backup_name (old_date 7))) = None"
    "fails env0 (StoreUpdateOne ''settings'') = None"
    "fails env0 (ReadFile (backup_path (backup_name (old_date 7)))) = None"
    "fails env0 (WriteFile ''data/settings.json'') = None"
    by (simp_all add: env0_def)
  have fi: "find (\<lambda>b. filename b = backup_name (old_date 7)) (backups db7) = Some backup7"
    by (simp add: db7_def backup7_def)
  have mo: "map_of (BACKUP_DIR disk7) (backup_name (old_date 7)) = Some (snd (old_file 7))"
    by (simp add: disk7_def old_file_def)
  have sn: "appdata backup7 = JNull" "settings backup7 \<noteq> JNull" "settings backup7 = settings0"
    "appdata (snd (old_file 7)) = JNull" "settings (snd (old_file 7)) \<noteq> JNull"
    "settings (snd (old_file 7)) = settings0"
    by (simp_all add: backup7_def old_file_def settings0_def)
  have st: "store db7 ''appdata'' = Some (JArr [JNum 1])" "APPDATA_FILE disk7 = Some (JArr [JNum 1])"
    by (simp_all add: db7_def disk7_def)
  have ns: "CHR ''/'' \<notin> set (backup_name (old_date 7))"
    by code_simp
  note t = restore_is_field_wise [OF v w(1) fa(1) fi sn(1,2) fa(2) w(2) mo fa(3) sn(4,5) fa(4) ns]
  show ?thesis using t w fi sn st by simp
qed

subsection \<open>The last write wins\<close>

lemma run_writes_snoc:
  "run_writes s (ws @ [w]) = snd (write_doc (fst w) (run_writes s ws) (snd w))"
  by (induction ws arbitrary: s) simp_all

lemma run_writes_fs_snoc:
  "run_writes_fs d (ws @ [w]) = snd (write_doc_fs (fst w) (run_writes_fs d ws) (snd w))"
  by (induction ws arbitrary: d) simp_all

lemma settings_writes_snoc:
  "ws \<noteq> [] \<Longrightarrow> settings_writes ws = settings_writes (butlast ws) @ [(fst (last ws), PostSettings (snd (last ws)))]"
proof -
  assume "ws \<noteq> []"
  then have "ws = butlast ws @ [last ws]" by simp
  then have "settings_writes ws = settings_writes (butlast ws @ [last ws])" by simp
  then show ?thesis by (simp only: settings_writes_def map_append list.map)
qed

text \<open>
  C8. After a run of one or more writes of the settings whose last write succeeds, a read
  of the settings that does not fail returns the body of the last write, whatever the
  state before the run and whatever the earlier writes were.
\<close>

theorem settings_last_write_wins:
  assumes "ws \<noteq> []"
    and "fails (fst (last ws)) (StoreUpdateOne ''settings'') = None"
    and "fails e (StoreFindOne ''settings'') = None"
    and "fails (fst (last ws)) (WriteFile ''data/settings.json'') = None"
    and "fails e (ReadFile ''data/settings.json'') = None"
  shows "get_api_settings e (run_writes s (settings_writes ws)) = JsonDoc (snd (last ws)) \<and>
         get_api_settings_fs e (run_writes_fs d (settings_writes ws)) = JsonDoc (snd (last ws))"
proof -
  let ?e = "fst (last ws)" and ?b = "snd (last ws)"
  let ?s = "run_writes s (settings_writes (butlast ws))"
  let ?d = "run_writes_fs d (settings_writes (butlast ws))"
  have "run_writes s (settings_writes ws) = snd (post_api_settings ?e ?s ?b)"
    by (simp add: settings_writes_snoc [OF assms(1)] run_writes_snoc)
  moreover have "store (snd (post_api_settings ?e ?s ?b)) ''settings'' = Some ?b"
    unfolding post_api_settings_def using assms(2) by (rule post_doc_store)
  ultimately have m: "get_api_settings e (run_writes s (settings_writes ws)) = JsonDoc ?b"
    using assms(3) by (simp add: get_api_settings_def getDoc_def)
  have "run_writes_fs d (settings_writes ws) = snd (post_api_settings_fs ?e ?d ?b)"
    by (simp add: settings_writes_snoc [OF assms(1)] run_writes_fs_snoc)
  moreover have "SETTINGS_FILE (snd (post_api_settings_fs ?e ?d ?b)) = Some ?b"
    using assms(4) by (rule post_api_settings_fs_file)
  ultimately have f: "get_api_settings_fs e (run_writes_fs d (settings_writes ws)) = JsonDoc ?b"
    using assms(5) by (simp add: get_api_settings_fs_def read_json_def json_or_null_def)
  show ?thesis using m f by simp
qed

theorem settings_last_write_wins_witness:
  "get_api_settings env0 (run_writes db7
      (settings_writes [(env0, settings0), (env_store_down, JNum 5), (env_backups_down, JObj [])]))
     = JsonDoc (JObj []) \<and>
   get_api_settings_fs env0 (run_writes_fs disk7
      (settings_writes [(env0, settings0), (env_store_down, JNum 5), (env_backups_down, JObj [])]))
     = JsonDoc (JObj [])"
proof -
  let ?ws = "[(env0, settings0), (env_store_down, JNum 5), (env_backups_down, JObj [])]"
  have a: "?ws \<noteq> []" by simp
  have b: "fails (fst (last ?ws)) (StoreUpdateOne ''settings'') = None"
    "fails (fst (last ?ws)) (WriteFile ''data/settings.json'') = None"
    by (simp_all add: env_backups_down_def env0_def backups_down_def startsWith_def)
  have c: "fails env0 (StoreFindOne ''settings'') = None"
    "fails env0 (ReadFile ''data/settings.json'') = None"
    by (simp_all add: env0_def)
  from settings_last_write_wins [OF a b(1) c(1) b(2) c(2), of db7 disk7]
  show ?thesis by simp
qed

subsection \<open>The update feed\<close>

lemma or_default_blank: "blank v \<Longrightarrow> or_default v d = d"
  by (auto simp: blank_def or_default_def)

lemma parseInt_blank: "blank v \<Longrightarrow> parseInt v = None"
  by (auto simp: blank_def parseInt_def parseInt_string_def is_space_def is_digit_def
      digit_value_def startsWith_def Let_def)

lemma new_update_blank:
  "blank (f_staff b) \<Longrightarrow> blank (f_message b) \<Longrightarrow> blank (f_type b) \<Longrightarrow> blank (f_day b) \<Longrightarrow>
     new_update e b = default_update e"
  by (simp add: new_update_def default_update_def or_default_blank parseInt_blank)

lemma get_api_updates_feed:
  "fails e (StoreFindOne ''updates'') = None \<Longrightarrow> get_api_updates e s = JsonUpdates (feed s)"
  by (simp add: get_api_updates_def getDoc_updates_def feed_def)

lemma readUpdates_feed:
  "fails e (ReadFile ''data/updates.json'') = None \<Longrightarrow> readUpdates e d = feed_fs d"
  by (simp add: readUpdates_def feed_fs_def updates_or_empty_def split: option.splits)

lemma post_api_updates_no_photo:
  assumes "feed_available e"
  shows "post_api_updates e s b None =
     (OkUpdate (new_update e b), s\<lparr>updates := Some (new_update e b # feed s)\<rparr>)"
  using assms
  by (simp add: post_api_updates_def attach_photo_def setDoc_updates_def getDoc_updates_def
      feed_available_def feed_def)

lemma post_api_updates_fs_no_photo:
  assumes "feed_available e"
  shows "post_api_updates_fs e d b None =
     (OkUpdate ((new_update e b)\<lparr>photo := None\<rparr>),
      d\<lparr>UPDATES_FILE := Some ((new_update e b)\<lparr>photo := None\<rparr> # feed_fs d)\<rparr>)"
  using assms
  by (simp add: post_api_updates_fs_def writeUpdates_def readUpdates_feed feed_available_def Let_def)

text \<open>
  C7. An insert without a photo whose text fields are all missing or empty, while the
  storage of the feed answers: the record created has the staff \<open>Anonymous\<close>, the empty
  message, the type \<open>general\<close>, the day 0, no photo, and the id and the timestamp that
  the server generates. It is returned to the client, and the feed after the insert is
  this record followed by the feed from before, in its order.
\<close>

theorem insert_blank_gets_defaults:
  assumes "blank (f_staff b)" and "blank (f_message b)" and "blank (f_type b)"
    and "blank (f_day b)" and "feed_available e"
    and "fails e2 (StoreFindOne ''updates'') = None"
    and "fails e2 (ReadFile ''data/updates.json'') = None"
  shows "post_api_updates e s b None =
           (OkUpdate (default_update e), s\<lparr>updates := Some (default_update e # feed s)\<rparr>) \<and>
         get_api_updates e2 s = JsonUpdates (feed s) \<and>
         get_api_updates e2 (snd (post_api_updates e s b None))
           = JsonUpdates (default_update e # feed s) \<and>
         post_api_updates_fs e d b None =
           (OkUpdate (default_update e), d\<lparr>UPDATES_FILE := Some (default_update e # feed_fs d)\<rparr>) \<and>
         get_api_updates_fs e2 d = JsonUpdates (feed_fs d) \<and>
         get_api_updates_fs e2 (snd (post_api_updates_fs e d b None))
           = JsonUpdates (default_update e # feed_fs d)"
proof -
  have n: "new_update e b = default_update e" using assms(1-4) by (rule new_update_blank)
  have p: "(default_update e)\<lparr>photo := None\<rparr> = default_update e" by (simp add: default_update_def)
  have m: "post_api_updates e s b None =
           (OkUpdate (default_update e), s\<lparr>updates := Some (default_update e # feed s)\<rparr>)"
    using post_api_updates_no_photo [OF assms(5), of s b] by (simp add: n)
  have f: "post_api_updates_fs e d b None =
           (OkUpdate (default_update e), d\<lparr>UPDATES_FILE := Some (default_update e # feed_fs d)\<rparr>)"
    using post_api_updates_fs_no_photo [OF assms(5), of d b] by (simp add: n p)
  show ?thesis
    using assms(6,7)
    by (simp add: m f get_api_updates_feed get_api_updates_fs_def readUpdates_feed)
       (simp add: feed_def feed_fs_def updates_or_empty_def)
qed

theorem insert_blank_gets_defaults_witness:
  "blank (f_staff no_fields) \<and> blank (f_message no_fields) \<and> blank (f_type no_fields) \<and>
   blank (f_day no_fields) \<and> feed_available env0 \<and>
   fst (post_api_updates env0 db_feed no_fields None) = OkUpdate (default_update env0) \<and>
   get_api_updates env0 (snd (post_api_updates env0 db_feed no_fields None))
     = JsonUpdates [default_update env0, update_a, update_b] \<and>
   get_api_updates_fs env0 (snd (post_api_updates_fs env0 disk_feed no_fields None))
     = JsonUpdates [default_update env0, update_a, update_b]"
proof -
  have b: "blank (f_staff no_fields)" "blank (f_message no_fields)" "blank (f_type no_fields)"
    "blank (f_day no_fields)"
    by (simp_all add: blank_def no_fields_def)
  have a: "feed_available env0" by (simp add: feed_available_def env0_def)
  have r: "fails env0 (StoreFindOne ''updates'') = None"
    "fails env0 (ReadFile ''data/updates.json'') = None"
    by (simp_all add: env0_def)
  have f: "feed db_feed = [update_a, update_b]" "feed_fs disk_feed = [update_a, update_b]"
    by (simp_all add: feed_def feed_fs_def db_feed_def disk_feed_def updates_or_empty_def)
  note t = insert_blank_gets_defaults [OF b a r, of db_feed disk_feed, unfolded f]
  have 1: "fst (post_api_updates env0 db_feed no_fields None) = OkUpdate (default_update env0)"
    using t by simp
  have 2: "get_api_updates env0 (snd (post_api_updates env0 db_feed no_fields None))
     = JsonUpdates [default_update env0, update_a, update_b]"
    using t by blast
  have 3: "get_api_updates_fs env0 (snd (post_api_updates_fs env0 disk_feed no_fields None))
     = JsonUpdates [default_update env0, update_a, update_b]"
    using t by blast
  show ?thesis using b a 1 2 3 by blast
qed

lemma filter_absent: "\<forall>u \<in> set us. id_u u \<noteq> rid \<Longrightarrow> filter (\<lambda>u. id_u u \<noteq> rid) us = us"
  by (simp add: filter_id_conv)

lemma find_absent: "\<forall>u \<in> set us. id_u u \<noteq> rid \<Longrightarrow> find (\<lambda>u. id_u u = rid) us = None"
  by (simp add: find_None_iff)

lemma find_after_filter: "find (\<lambda>u. id_u u = rid) (filter (\<lambda>u. id_u u \<noteq> rid) us) = None"
  by (simp add: find_None_iff)

lemma delete_api_updates_absent:
  assumes "feed_available e" and "\<forall>u \<in> set (feed s). id_u u \<noteq> rid"
  shows "delete_api_updates e s rid = (OkTrue, s\<lparr>updates := Some (feed s)\<rparr>)"
proof -
  have g: "updates_or_empty (getDoc_updates e s) = feed s"
    using assms(1) by (simp add: getDoc_updates_def feed_available_def feed_def)
  have u: "fails e (StoreUpdateOne ''updates'') = None"
    using assms(1) by (simp add: feed_available_def)
  show ?thesis
    by (simp add: delete_api_updates_def g find_absent [OF assms(2)] filter_absent [OF assms(2)]
        attached_def setDoc_updates_def u)
qed

lemma delete_api_updates_fs_absent:
  assumes "feed_available e" and "\<forall>u \<in> set (feed_fs d). id_u u \<noteq> rid"
  shows "delete_api_updates_fs e d rid = (OkTrue, d\<lparr>UPDATES_FILE := Some (feed_fs d)\<rparr>)"
proof -
  have g: "readUpdates e d = feed_fs d"
    using assms(1) by (simp add: readUpdates_feed feed_available_def)
  have u: "fails e (WriteFile ''data/updates.json'') = None"
    using assms(1) by (simp add: feed_available_def)
  show ?thesis
    by (simp add: delete_api_updates_fs_def g find_absent [OF assms(2)] filter_absent [OF assms(2)]
        attached_def writeUpdates_def u)
qed

lemma delete_api_updates_cases:
  assumes "feed_available e"
  shows "(\<exists>m s2. delete_api_updates e s rid = (Error 500 m, s2)) \<or>
         (\<exists>s2. delete_api_updates e s rid =
            (OkTrue, s2\<lparr>updates := Some (filter (\<lambda>u. id_u u \<noteq> rid) (feed s))\<rparr>))"
proof -
  have g: "updates_or_empty (getDoc_updates e s) = feed s"
    using assms(1) by (simp add: getDoc_updates_def feed_available_def feed_def)
  have u: "fails e (StoreUpdateOne ''updates'') = None"
    using assms(1) by (simp add: feed_available_def)
  define r where "r = (case attached (find (\<lambda>u. id_u u = rid) (feed s)) of
                 None \<Rightarrow> (Inr (), s)
               | Some p \<Rightarrow> delete_photo e s p)"
  have eq: "delete_api_updates e s rid =
      (case r of
           (Inl m, s2) \<Rightarrow> (Error 500 m, s2)
         | (Inr u, s2) \<Rightarrow>
             (case setDoc_updates e s2 (filter (\<lambda>u. id_u u \<noteq> rid) (feed s)) of
                (Inl m, s3) \<Rightarrow> (Error 500 m, s3)
              | (Inr v, s3) \<Rightarrow> (OkTrue, s3)))"
    unfolding delete_api_updates_def Let_def g r_def by (rule refl)
  obtain x s2 where r: "r = (x, s2)" by (cases r)
  show ?thesis
  proof (cases x)
    case (Inl m)
    then show ?thesis by (simp add: eq r)
  next
    case (Inr v)
    then have "delete_api_updates e s rid =
        (OkTrue, s2\<lparr>updates := Some (filter (\<lambda>u. id_u u \<noteq> rid) (feed s))\<rparr>)"
      by (simp add: eq r setDoc_updates_def u)
    then show ?thesis by blast
  qed
qed

lemma delete_api_updates_fs_cases:
  assumes "feed_available e"
  shows "(\<exists>m s2. delete_api_updates_fs e d rid = (Error 500 m, s2)) \<or>
         (\<exists>s2. delete_api_updates_fs e d rid =
            (OkTrue, s2\<lparr>UPDATES_FILE := Some (filter (\<lambda>u. id_u u \<noteq> rid) (feed_fs d))\<rparr>))"
proof -
  have g: "readUpdates e d = feed_fs d"
    using assms(1) by (simp add: readUpdates_feed feed_available_def)
  have u: "fails e (WriteFile ''data/updates.json'') = None"
    using assms(1) by (simp add: feed_available_def)
  define r where "r = (case attached (find (\<lambda>u. id_u u = rid) (feed_fs d)) of
                 None \<Rightarrow> (Inr (), d)
               | Some p \<Rightarrow> delete_photo_fs e d p)"
  have eq: "delete_api_updates_fs e d rid =
      (case r of
           (Inl m, s1) \<Rightarrow> (Error 500 m, s1)
         | (Inr u, s1) \<Rightarrow>
             (case writeUpdates e s1 (filter (\<lambda>u. id_u u \<noteq> rid) (feed_fs d)) of
                (Inl m, s2) \<Rightarrow> (Error 500 m, s2)
              | (Inr v, s2) \<Rightarrow> (OkTrue, s2)))"
    unfolding delete_api_updates_fs_def Let_def g r_def by (rule refl)
  obtain x s2 where r: "r = (x, s2)" by (cases r)
  show ?thesis
  proof (cases x)
    case (Inl m)
    then show ?thesis by (simp add: eq r)
  next
    case (Inr v)
    then have "delete_api_updates_fs e d rid =
        (OkTrue, s2\<lparr>UPDATES_FILE := Some (filter (\<lambda>u. id_u u \<noteq> rid) (feed_fs d))\<rparr>)"
      by (simp add: eq r writeUpdates_def u)
    then show ?thesis by blast
  qed
qed

lemma feed_set_updates: "feed (s\<lparr>updates := Some us\<rparr>) = us"
  by (simp add: feed_def updates_or_empty_def)

lemma feed_fs_set_updates: "feed_fs (d\<lparr>UPDATES_FILE := Some us\<rparr>) = us"
  by (simp add: feed_fs_def updates_or_empty_def)

text \<open>
  C9. Deleting an id that no record of the feed carries, while the storage of the feed
  answers: the response is \<open>{ ok: true }\<close>, the feed is the same sequence of records as
  before, and nothing else in the state changes. A delete that succeeded leaves no record
  with that id, so deleting the same id again is such a delete: it succeeds and changes
  nothing.
\<close>

theorem delete_absent_is_noop:
  assumes "feed_available e"
  shows "((\<forall>u \<in> set (feed s). id_u u \<noteq> rid) \<longrightarrow>
            delete_api_updates e s rid = (OkTrue, s\<lparr>updates := Some (feed s)\<rparr>) \<and>
            feed (snd (delete_api_updates e s rid)) = feed s) \<and>
         ((\<forall>u \<in> set (feed_fs d). id_u u \<noteq> rid) \<longrightarrow>
            delete_api_updates_fs e d rid = (OkTrue, d\<lparr>UPDATES_FILE := Some (feed_fs d)\<rparr>) \<and>
            feed_fs (snd (delete_api_updates_fs e d rid)) = feed_fs d) \<and>
         (fst (delete_api_updates e s rid) = OkTrue \<longrightarrow>
            delete_api_updates e (snd (delete_api_updates e s rid)) rid
              = (OkTrue, snd (delete_api_updates e s rid))) \<and>
         (fst (delete_api_updates_fs e d rid) = OkTrue \<longrightarrow>
            delete_api_updates_fs e (snd (delete_api_updates_fs e d rid)) rid
              = (OkTrue, snd (delete_api_updates_fs e d rid)))"
proof (intro conjI impI)
  assume a: "\<forall>u \<in> set (feed s). id_u u \<noteq> rid"
  show "delete_api_updates e s rid = (OkTrue, s\<lparr>updates := Some (feed s)\<rparr>)"
    using assms a by (rule delete_api_updates_absent)
  then show "feed (snd (delete_api_updates e s rid)) = feed s"
    by (simp add: feed_set_updates)
next
  assume a: "\<forall>u \<in> set (feed_fs d). id_u u \<noteq> rid"
  show "delete_api_updates_fs e d rid = (OkTrue, d\<lparr>UPDATES_FILE := Some (feed_fs d)\<rparr>)"
    using assms a by (rule delete_api_updates_fs_absent)
  then show "feed_fs (snd (delete_api_updates_fs e d rid)) = feed_fs d"
    by (simp add: feed_fs_set_updates)
next
  let ?s1 = "snd (delete_api_updates e s rid)"
  assume ok: "fst (delete_api_updates e s rid) = OkTrue"
  obtain s2 where sh: "delete_api_updates e s rid =
      (OkTrue, s2\<lparr>updates := Some (filter (\<lambda>u. id_u u \<noteq> rid) (feed s))\<rparr>)"
    using delete_api_updates_cases [OF assms, of s rid] ok by auto
  have f: "feed ?s1 = filter (\<lambda>u. id_u u \<noteq> rid) (feed s)"
    by (simp add: sh feed_set_updates)
  then have ab: "\<forall>u \<in> set (feed ?s1). id_u u \<noteq> rid" by simp
  have some: "updates ?s1 = Some (feed ?s1)"
    by (simp add: sh feed_set_updates)
  have "delete_api_updates e ?s1 rid = (OkTrue, ?s1\<lparr>updates := Some (feed ?s1)\<rparr>)"
    using assms ab by (rule delete_api_updates_absent)
  moreover have "?s1\<lparr>updates := Some (feed ?s1)\<rparr> = ?s1" using some by simp
  ultimately show "delete_api_updates e ?s1 rid = (OkTrue, ?s1)" by simp
next
  let ?d1 = "snd (delete_api_updates_fs e d rid)"
  assume ok: "fst (delete_api_updates_fs e d rid) = OkTrue"
  obtain d2 where sh: "delete_api_updates_fs e d rid =
      (OkTrue, d2\<lparr>UPDATES_FILE := Some (filter (\<lambda>u. id_u u \<noteq> rid) (feed_fs d))\<rparr>)"
    using delete_api_updates_fs_cases [OF assms, of d rid] ok by auto
  have f: "feed_fs ?d1 = filter (\<lambda>u. id_u u \<noteq> rid) (feed_fs d)"
    by (simp add: sh feed_fs_set_updates)
  then have ab: "\<forall>u \<in> set (feed_fs ?d1). id_u u \<noteq> rid" by simp
  have some: "UPDATES_FILE ?d1 = Some (feed_fs ?d1)"
    by (simp add: sh feed_fs_set_updates)
  have "delete_api_updates_fs e ?d1 rid = (OkTrue, ?d1\<lparr>UPDATES_FILE := Some (feed_fs ?d1)\<rparr>)"
    using assms ab by (rule delete_api_updates_fs_absent)
  moreover have "?d1\<lparr>UPDATES_FILE := Some (feed_fs ?d1)\<rparr> = ?d1" using some by simp
  ultimately show "delete_api_updates_fs e ?d1 rid = (OkTrue, ?d1)" by simp
qed

theorem delete_absent_is_noop_witness:
  "feed_available env0 \<and> ''no-such-id'' \<notin> set (map id_u (feed db_feed)) \<and>
   delete_api_updates env0 db_feed ''no-such-id'' = (OkTrue, db_feed) \<and>
   delete_api_updates_fs env0 disk_feed ''no-such-id'' = (OkTrue, disk_feed) \<and>
   get_api_updates env0 (snd (delete_api_updates env0 db_feed ''no-such-id''))
     = JsonUpdates [update_a, update_b]"
proof -
  have a: "feed_available env0" by (simp add: feed_available_def env0_def)
  have f: "feed db_feed = [update_a, update_b]" "feed_fs disk_feed = [update_a, update_b]"
    by (simp_all add: feed_def feed_fs_def db_feed_def disk_feed_def updates_or_empty_def)
  have n: "\<forall>u \<in> set (feed db_feed). id_u u \<noteq> ''no-such-id''"
    "\<forall>u \<in> set (feed_fs disk_feed). id_u u \<noteq> ''no-such-id''"
    by (simp_all add: f update_a_def update_b_def)
  have s: "db_feed\<lparr>updates := Some [update_a, update_b]\<rparr> = db_feed"
    "disk_feed\<lparr>UPDATES_FILE := Some [update_a, update_b]\<rparr> = disk_feed"
    by (simp_all add: db_feed_def disk_feed_def)
  note t = delete_absent_is_noop [OF a, of db_feed "''no-such-id''" disk_feed, unfolded f s]
  have 1: "delete_api_updates env0 db_feed ''no-such-id'' = (OkTrue, db_feed)"
    using t n(1) f(1) by simp
  have 2: "delete_api_updates_fs env0 disk_feed ''no-such-id'' = (OkTrue, disk_feed)"
    using t n(2) f(2) by simp
  have 3: "get_api_updates env0 (snd (delete_api_updates env0 db_feed ''no-such-id''))
     = JsonUpdates [update_a, update_b]"
  proof -
    have "fails env0 (StoreFindOne ''updates'') = None" by (simp add: env0_def)
    then show ?thesis by (simp add: 1 get_api_updates_feed f(1))
  qed
  have 4: "''no-such-id'' \<notin> set (map id_u (feed db_feed))"
    by (simp add: f update_a_def update_b_def)
  show ?thesis using a 4 1 2 3 by blast
qed

subsection \<open>Photos of the feed\<close>

lemma local_file_local_path: "local_file s (local_path n) = (n \<in> uploads s)"
  by (simp add: local_file_def local_path_def startsWith_def)

lemma uploadToGridFS_rejected:
  "fails e (GridFSUpload n) = Some m \<Longrightarrow> uploadToGridFS e s p n = (Some (Inl m), s)"
  by (simp add: uploadToGridFS_def)

lemma uploadToGridFS_pending:
  assumes "fails e (GridFSUpload n) = None" and "createReadStream e s p \<noteq> None"
  shows "uploadToGridFS e s p n = (None, s)"
  using assms by (auto simp: uploadToGridFS_def)

lemma uploadToGridFS_settled:
  assumes "fails e (ReadStream p) = None" and "local_file s p"
  shows "\<exists>r ph. uploadToGridFS e s p n = (Some r, s\<lparr>photos := ph\<rparr>)"
proof -
  have same: "s = s\<lparr>photos := photos s\<rparr>" by simp
  have rd: "createReadStream e s p = None"
    using assms by (simp add: createReadStream_def)
  show ?thesis
  proof (cases "fails e (GridFSUpload n)")
    case (Some m)
    then have "uploadToGridFS e s p n = (Some (Inl m), s\<lparr>photos := photos s\<rparr>)"
      by (simp add: uploadToGridFS_def)
    then show ?thesis by blast
  next
    case None
    show ?thesis
    proof (cases "objectId e \<in> set (map fst (photos s))")
      case True
      then have "uploadToGridFS e s p n = (Some (Inl ''duplicate key''), s\<lparr>photos := photos s\<rparr>)"
        using None rd by (simp add: uploadToGridFS_def)
      then show ?thesis by blast
    next
      case False
      then have "uploadToGridFS e s p n =
          (Some (Inr (objectId e)), s\<lparr>photos := photos s @ [(objectId e, n)]\<rparr>)"
        using None rd by (simp add: uploadToGridFS_def)
      then show ?thesis by blast
    qed
  qed
qed

lemma post_api_updates_photo:
  assumes "feed_available e" and "fails e (ReadStream (u_path f)) = None"
    and "local_file s (u_path f)"
  shows "\<exists>ph. post_api_updates e s b (Some f) =
     (OkUpdate ((new_update e b)\<lparr>photo := Some (''/uploads/'' @ u_filename f)\<rparr>),
      s\<lparr>photos := ph,
        updates := Some ((new_update e b)\<lparr>photo := Some (''/uploads/'' @ u_filename f)\<rparr> # feed s)\<rparr>)"
proof -
  obtain r ph where g: "uploadToGridFS e s (u_path f) (u_filename f) = (Some r, s\<lparr>photos := ph\<rparr>)"
    using uploadToGridFS_settled [OF assms(2,3)] by blast
  have "post_api_updates e s b (Some f) =
     (OkUpdate ((new_update e b)\<lparr>photo := Some (''/uploads/'' @ u_filename f)\<rparr>),
      s\<lparr>photos := ph,
        updates := Some ((new_update e b)\<lparr>photo := Some (''/uploads/'' @ u_filename f)\<rparr> # feed s)\<rparr>)"
    using assms(1)
    by (simp add: post_api_updates_def attach_photo_def g setDoc_updates_def getDoc_updates_def
        feed_available_def feed_def)
  then show ?thesis by blast
qed

lemma post_api_updates_photo_failed:
  assumes "feed_available e" and "fails e (GridFSUpload (u_filename f)) = Some m"
  shows "post_api_updates e s b (Some f) =
     (OkUpdate ((new_update e b)\<lparr>photo := Some (''/uploads/'' @ u_filename f)\<rparr>),
      s\<lparr>updates := Some ((new_update e b)\<lparr>photo := Some (''/uploads/'' @ u_filename f)\<rparr> # feed s)\<rparr>)"
  using assms
  by (simp add: post_api_updates_def attach_photo_def uploadToGridFS_rejected setDoc_updates_def
      getDoc_updates_def feed_available_def feed_def)

lemma post_api_updates_fs_photo:
  assumes "feed_available e"
  shows "post_api_updates_fs e d b (Some f) =
     (OkUpdate ((new_update e b)\<lparr>photo := Some (''/uploads/'' @ u_filename f)\<rparr>),
      d\<lparr>UPDATES_FILE :=
          Some ((new_update e b)\<lparr>photo := Some (''/uploads/'' @ u_filename f)\<rparr> # feed_fs d)\<rparr>)"
  using assms
  by (simp add: post_api_updates_fs_def writeUpdates_def readUpdates_feed feed_available_def Let_def)

text \<open>
  When the read stream of the uploaded file fails and the upload stream emits no error,
  the promise of \<open>uploadToGridFS\<close> is never settled: the handler sends no response and
  stores nothing.
\<close>

lemma post_api_updates_unanswered:
  assumes "fails e (GridFSUpload (u_filename f)) = None"
    and "createReadStream e s (u_path f) \<noteq> None"
  shows "post_api_updates e s b (Some f) = (Unanswered, s)"
  using uploadToGridFS_pending [OF assms]
  by (simp add: post_api_updates_def attach_photo_def)

text \<open>
  C3, as the code has it. An insert with a photo, while the storage of the feed answers
  and the uploaded file is in the local uploads directory and is read without an error.
  If the copy into the bucket fails, the insert succeeds all the same: the record is
  returned and is the head of the feed, nothing else of the store changes, and the photo
  field of the record is the reference \<open>/uploads/\<close> followed by the name of the uploaded
  file, not null. Whatever the bucket does, the response and the feed are these. The file
  variant copies nothing in the handler and sets the same reference.
\<close>

theorem insert_survives_photo_failure:
  assumes "feed_available e"
    and "fails e (ReadStream (u_path f)) = None" and "local_file s (u_path f)"
  shows "(fails e (GridFSUpload (u_filename f)) \<noteq> None \<longrightarrow>
            post_api_updates e s b (Some f) =
              (OkUpdate ((new_update e b)\<lparr>photo := Some (''/uploads/'' @ u_filename f)\<rparr>),
               s\<lparr>updates := Some ((new_update e b)\<lparr>photo := Some (''/uploads/'' @ u_filename f)\<rparr>
                                      # feed s)\<rparr>)) \<and>
         fst (post_api_updates e s b (Some f)) =
           OkUpdate ((new_update e b)\<lparr>photo := Some (''/uploads/'' @ u_filename f)\<rparr>) \<and>
         feed (snd (post_api_updates e s b (Some f))) =
           (new_update e b)\<lparr>photo := Some (''/uploads/'' @ u_filename f)\<rparr> # feed s \<and>
         fst (post_api_updates_fs e d b (Some f)) =
           OkUpdate ((new_update e b)\<lparr>photo := Some (''/uploads/'' @ u_filename f)\<rparr>) \<and>
         feed_fs (snd (post_api_updates_fs e d b (Some f))) =
           (new_update e b)\<lparr>photo := Some (''/uploads/'' @ u_filename f)\<rparr> # feed_fs d"
proof -
  obtain ph where g: "post_api_updates e s b (Some f) =
     (OkUpdate ((new_update e b)\<lparr>photo := Some (''/uploads/'' @ u_filename f)\<rparr>),
      s\<lparr>photos := ph,
        updates := Some ((new_update e b)\<lparr>photo := Some (''/uploads/'' @ u_filename f)\<rparr> # feed s)\<rparr>)"
    using post_api_updates_photo [OF assms] by blast
  have 1: "fails e (GridFSUpload (u_filename f)) \<noteq> None \<longrightarrow>
            post_api_updates e s b (Some f) =
              (OkUpdate ((new_update e b)\<lparr>photo := Some (''/uploads/'' @ u_filename f)\<rparr>),
               s\<lparr>updates := Some ((new_update e b)\<lparr>photo := Some (''/uploads/'' @ u_filename f)\<rparr>
                                      # feed s)\<rparr>)"
    using post_api_updates_photo_failed [OF assms(1)] by auto
  have 2: "fst (post_api_updates e s b (Some f)) =
           OkUpdate ((new_update e b)\<lparr>photo := Some (''/uploads/'' @ u_filename f)\<rparr>)"
    by (simp add: g)
  have 3: "feed (snd (post_api_updates e s b (Some f))) =
           (new_update e b)\<lparr>photo := Some (''/uploads/'' @ u_filename f)\<rparr> # feed s"
    by (simp add: g feed_def updates_or_empty_def)
  have 4: "fst (post_api_updates_fs e d b (Some f)) =
           OkUpdate ((new_update e b)\<lparr>photo := Some (''/uploads/'' @ u_filename f)\<rparr>)"
    by (simp add: post_api_updates_fs_photo [OF assms(1)])
  have 5: "feed_fs (snd (post_api_updates_fs e d b (Some f))) =
           (new_update e b)\<lparr>photo := Some (''/uploads/'' @ u_filename f)\<rparr> # feed_fs d"
    by (simp add: post_api_updates_fs_photo [OF assms(1)] feed_fs_def updates_or_empty_def)
  show ?thesis using 1 2 3 4 5 by (intro conjI) assumption+
qed

lemma env_gridfs_down_feed: "feed_available env_gridfs_down"
  by (simp add: feed_available_def env_gridfs_down_def env0_def)

lemma env_gridfs_down_upload:
  "fails env_gridfs_down (GridFSUpload (u_filename photo0)) = Some ''connection closed''"
  by (simp add: env_gridfs_down_def)

lemma env_gridfs_down_read: "fails env_gridfs_down (ReadStream (u_path photo0)) = None"
  by (simp add: env_gridfs_down_def)

lemma photo0_uploaded: "local_file db_uploaded (u_path photo0)"
  by (simp add: local_file_def photo0_def startsWith_def db_uploaded_def)

lemma db_uploaded_feed: "feed db_uploaded = [update_a, update_b]"
  by (simp add: feed_def db_uploaded_def db_feed_def updates_or_empty_def)

theorem insert_survives_photo_failure_witness:
  "feed_available env_gridfs_down \<and>
   fails env_gridfs_down (ReadStream (u_path photo0)) = None \<and>
   local_file db_uploaded (u_path photo0) \<and>
   fails env_gridfs_down (GridFSUpload (u_filename photo0)) = Some ''connection closed'' \<and>
   post_api_updates env_gridfs_down db_uploaded no_fields (Some photo0) =
     (OkUpdate ((default_update env_gridfs_down)\<lparr>photo := Some ''/uploads/1770000000020-zz99yy.jpg''\<rparr>),
      db_uploaded\<lparr>updates := Some [(default_update env_gridfs_down)
                                     \<lparr>photo := Some ''/uploads/1770000000020-zz99yy.jpg''\<rparr>,
                                   update_a, update_b]\<rparr>)"
proof -
  have n: "new_update env_gridfs_down no_fields = default_update env_gridfs_down"
    by (rule new_update_blank) (simp_all add: blank_def no_fields_def)
  have p: "''/uploads/'' @ u_filename photo0 = ''/uploads/1770000000020-zz99yy.jpg''"
    by (simp add: photo0_def)
  note t = insert_survives_photo_failure [OF env_gridfs_down_feed env_gridfs_down_read
      photo0_uploaded, of no_fields empty_disk, unfolded n db_uploaded_feed p]
  have "post_api_updates env_gridfs_down db_uploaded no_fields (Some photo0) =
     (OkUpdate ((default_update env_gridfs_down)\<lparr>photo := Some ''/uploads/1770000000020-zz99yy.jpg''\<rparr>),
      db_uploaded\<lparr>updates := Some [(default_update env_gridfs_down)
                                     \<lparr>photo := Some ''/uploads/1770000000020-zz99yy.jpg''\<rparr>,
                                   update_a, update_b]\<rparr>)"
    using t env_gridfs_down_upload by simp
  then show ?thesis
    using env_gridfs_down_feed env_gridfs_down_read photo0_uploaded env_gridfs_down_upload
    by blast
qed

text \<open>
  The claim C3 as it is written fails: the uploaded file is on the local disk and is
  read, the copy into the bucket fails and nothing is stored in the bucket, yet the photo
  field of the record created is not null.
\<close>

theorem insert_photo_null_counterexample:
  "fails env_gridfs_down (GridFSUpload (u_filename photo0)) = Some ''connection closed'' \<and>
   local_file db_uploaded (u_path photo0) \<and>
   photos (snd (post_api_updates env_gridfs_down db_uploaded no_fields (Some photo0)))
     = photos db_uploaded \<and>
   fst (post_api_updates env_gridfs_down db_uploaded no_fields (Some photo0)) =
     OkUpdate ((default_update env_gridfs_down)\<lparr>photo := Some ''/uploads/1770000000020-zz99yy.jpg''\<rparr>) \<and>
   photo ((default_update env_gridfs_down)\<lparr>photo := Some ''/uploads/1770000000020-zz99yy.jpg''\<rparr>)
     \<noteq> None"
proof -
  have n: "new_update env_gridfs_down no_fields = default_update env_gridfs_down"
    by (rule new_update_blank) (simp_all add: blank_def no_fields_def)
  have "post_api_updates env_gridfs_down db_uploaded no_fields (Some photo0) =
     (OkUpdate ((default_update env_gridfs_down)\<lparr>photo := Some (''/uploads/'' @ u_filename photo0)\<rparr>),
      db_uploaded\<lparr>updates := Some ((default_update env_gridfs_down)
                                 \<lparr>photo := Some (''/uploads/'' @ u_filename photo0)\<rparr> # feed db_uploaded)\<rparr>)"
    using post_api_updates_photo_failed [OF env_gridfs_down_feed env_gridfs_down_upload,
        of db_uploaded no_fields]
    by (simp add: n)
  then show ?thesis
    using env_gridfs_down_upload photo0_uploaded by (simp add: photo0_def)
qed

text \<open>
  The same request when the read stream of the uploaded file fails and the bucket does
  not: no response, and the feed is as before.
\<close>

lemma insert_unanswered_read_down:
  "post_api_updates env_read_down db_uploaded no_fields (Some photo0) = (Unanswered, db_uploaded)"
proof -
  have a: "fails env_read_down (GridFSUpload (u_filename photo0)) = None"
    by (simp add: env_read_down_def env0_def)
  have b: "createReadStream env_read_down db_uploaded (u_path photo0) \<noteq> None"
    by (simp add: createReadStream_def env_read_down_def)
  show ?thesis by (rule post_api_updates_unanswered [OF a b])
qed

subsection \<open>Deleting a record that carries a photo\<close>

lemma find_distinct:
  "distinct (map id_u us) \<Longrightarrow> u \<in> set us \<Longrightarrow> find (\<lambda>v. id_u v = id_u u) us = Some u"
  by (induction us) (auto simp: image_iff)

lemma replace_first_uploads: "replace_first ''/uploads/'' '''' (''/uploads/'' @ name) = name"
  by (simp add: startsWith_def)

lemma photo_file_uploads: "photo_file (''/uploads/'' @ name) = Some name"
  by (simp add: photo_file_def startsWith_def)

lemma attached_uploads:
  "photo u = Some (''/uploads/'' @ name) \<Longrightarrow> attached (Some u) = Some (''/uploads/'' @ name)"
  by (simp add: attached_def)

lemma delete_each_frame: "\<exists>ph. snd (delete_each e s ids) = s\<lparr>photos := ph\<rparr>"
proof (induction ids arbitrary: s)
  case Nil
  show ?case by (rule exI [of _ "photos s"]) simp
next
  case (Cons i rest)
  obtain r s1 where bd: "bucket_delete e s i = (r, s1)" by (cases "bucket_delete e s i")
  obtain ph1 where s1: "s1 = s\<lparr>photos := ph1\<rparr>"
  proof (cases "fails e (GridFSDelete i) = None \<and> i \<in> set (map fst (photos s))")
    case True
    then have "s1 = s\<lparr>photos := filter (\<lambda>f. fst f \<noteq> i) (photos s)\<rparr>"
      using bd by (auto simp: bucket_delete_def)
    then show ?thesis by (rule that)
  next
    case False
    then have "s1 = s\<lparr>photos := photos s\<rparr>"
      using bd by (auto simp: bucket_delete_def split: option.splits)
    then show ?thesis by (rule that)
  qed
  obtain ph2 where "snd (delete_each e s1 rest) = s1\<lparr>photos := ph2\<rparr>"
    using Cons.IH [of s1] by blast
  then have rec: "snd (delete_each e s1 rest) = s\<lparr>photos := ph2\<rparr>" by (simp add: s1)
  show ?case
  proof (cases r)
    case (Inl m)
    then show ?thesis using bd s1 by auto
  next
    case (Inr v)
    then show ?thesis using bd rec by auto
  qed
qed

lemma deleteFromGridFS_frame: "\<exists>ph. snd (deleteFromGridFS e s name) = s\<lparr>photos := ph\<rparr>"
proof (cases "fails e (GridFSFind name)")
  case None
  then show ?thesis using delete_each_frame by (simp add: deleteFromGridFS_def)
next
  case (Some m)
  then have "snd (deleteFromGridFS e s name) = s\<lparr>photos := photos s\<rparr>"
    by (simp add: deleteFromGridFS_def)
  then show ?thesis by blast
qed

lemma delete_each_ok:
  assumes "\<forall>i. fails e (GridFSDelete i) = None"
  shows "distinct ids \<Longrightarrow> set ids \<subseteq> fst ` set (photos s) \<Longrightarrow>
     delete_each e s ids = (Inr (), s\<lparr>photos := filter (\<lambda>f. fst f \<notin> set ids) (photos s)\<rparr>)"
proof (induction ids arbitrary: s)
  case Nil
  then show ?case by simp
next
  case (Cons i rest)
  let ?s1 = "s\<lparr>photos := filter (\<lambda>f. fst f \<noteq> i) (photos s)\<rparr>"
  have bd: "bucket_delete e s i = (Inr (), ?s1)"
    using assms Cons.prems(2) by (simp add: bucket_delete_def)
  have d: "distinct rest" and ni: "i \<notin> set rest" using Cons.prems(1) by simp_all
  have sub: "set rest \<subseteq> fst ` set (photos ?s1)"
  proof
    fix x assume x: "x \<in> set rest"
    then have "x \<in> fst ` set (photos s)" using Cons.prems(2) by auto
    then obtain f where f: "f \<in> set (photos s)" "fst f = x" by auto
    moreover have "x \<noteq> i" using x ni by auto
    ultimately have "f \<in> set (photos ?s1)" by simp
    then have "fst f \<in> fst ` set (photos ?s1)" by (rule imageI)
    then show "x \<in> fst ` set (photos ?s1)" by (simp only: f(2))
  qed
  have "delete_each e s (i # rest) = delete_each e ?s1 rest" by (simp add: bd)
  also have "\<dots> = (Inr (), ?s1\<lparr>photos := filter (\<lambda>f. fst f \<notin> set rest) (photos ?s1)\<rparr>)"
    by (rule Cons.IH [OF d sub])
  also have "\<dots> = (Inr (), s\<lparr>photos := filter (\<lambda>f. fst f \<notin> set (i # rest)) (photos s)\<rparr>)"
  proof -
    have "filter (\<lambda>f. fst f \<notin> set rest) (filter (\<lambda>f. fst f \<noteq> i) (photos s))
        = filter (\<lambda>f. fst f \<notin> set (i # rest)) (photos s)"
      unfolding filter_filter by (rule filter_cong) auto
    then show ?thesis by simp
  qed
  finally show ?case .
qed

lemma deleteFromGridFS_ok:
  assumes "gridfs_available e" and "distinct (map fst (photos s))"
  shows "deleteFromGridFS e s name =
     (Inr (), s\<lparr>photos := filter (\<lambda>f. snd f \<noteq> name) (photos s)\<rparr>)"
proof -
  let ?ids = "map fst (bucket_find s name)"
  have fd: "fails e (GridFSFind name) = None" and dl: "\<forall>i. fails e (GridFSDelete i) = None"
    using assms(1) by (simp_all add: gridfs_available_def)
  have d: "distinct ?ids"
    using assms(2) by (simp add: bucket_find_def distinct_map_filter)
  have sub: "set ?ids \<subseteq> fst ` set (photos s)" by (auto simp: bucket_find_def)
  have inj: "inj_on fst (set (photos s))" using assms(2) by (simp add: distinct_map)
  have "filter (\<lambda>f. fst f \<notin> set ?ids) (photos s) = filter (\<lambda>f. snd f \<noteq> name) (photos s)"
  proof (rule filter_cong [OF refl])
    fix f assume f: "f \<in> set (photos s)"
    show "(fst f \<notin> set ?ids) = (snd f \<noteq> name)"
    proof
      assume "fst f \<notin> set ?ids"
      then show "snd f \<noteq> name" using f by (auto simp: bucket_find_def)
    next
      assume n: "snd f \<noteq> name"
      show "fst f \<notin> set ?ids"
      proof
        assume "fst f \<in> set ?ids"
        then obtain g where g: "g \<in> set (photos s)" "snd g = name" "fst g = fst f"
          by (auto simp: bucket_find_def)
        then have "g = f" using inj f by (auto simp: inj_on_def)
        then show False using g n by simp
      qed
    qed
  qed
  then show ?thesis
    using fd delete_each_ok [OF dl d sub] by (simp add: deleteFromGridFS_def)
qed

lemma delete_photo_local:
  assumes "fails e (Unlink (local_path name)) = None"
  shows "\<exists>ph. delete_photo e s (''/uploads/'' @ name) =
     (Inr (), s\<lparr>uploads := uploads s - {name}, photos := ph\<rparr>)"
proof -
  let ?s1 = "s\<lparr>uploads := uploads s - {name}\<rparr>"
  have un: "(if name \<in> uploads s then unlinkSync e s name else (Inr (), s)) = (Inr (), ?s1)"
  proof (cases "name \<in> uploads s")
    case True
    then show ?thesis using assms by (simp add: unlinkSync_def)
  next
    case False
    then have "uploads s - {name} = uploads s" by auto
    then show ?thesis using False by simp
  qed
  obtain ph where "snd (deleteFromGridFS e ?s1 name) = ?s1\<lparr>photos := ph\<rparr>"
    using deleteFromGridFS_frame by blast
  then have "delete_photo e s (''/uploads/'' @ name) = (Inr (), ?s1\<lparr>photos := ph\<rparr>)"
    unfolding delete_photo_def Let_def replace_first_uploads un by simp
  then show ?thesis by auto
qed

lemma delete_photo_both:
  assumes "fails e (Unlink (local_path name)) = None" and "gridfs_available e"
    and "distinct (map fst (photos s))"
  shows "delete_photo e s (''/uploads/'' @ name) =
     (Inr (), s\<lparr>uploads := uploads s - {name},
                photos := filter (\<lambda>f. snd f \<noteq> name) (photos s)\<rparr>)"
proof -
  let ?s1 = "s\<lparr>uploads := uploads s - {name}\<rparr>"
  have un: "(if name \<in> uploads s then unlinkSync e s name else (Inr (), s)) = (Inr (), ?s1)"
  proof (cases "name \<in> uploads s")
    case True
    then show ?thesis using assms(1) by (simp add: unlinkSync_def)
  next
    case False
    then have "uploads s - {name} = uploads s" by auto
    then show ?thesis using False by simp
  qed
  have d: "distinct (map fst (photos ?s1))" using assms(3) by simp
  show ?thesis
    unfolding delete_photo_def Let_def replace_first_uploads un
    by (simp add: deleteFromGridFS_ok [OF assms(2) d])
qed

lemma delete_photo_fs_local:
  assumes "fails e (Unlink (local_path name)) = None"
  shows "delete_photo_fs e d (''/uploads/'' @ name) =
     (Inr (), d\<lparr>UPLOADS_DIR := UPLOADS_DIR d - {name}\<rparr>)"
proof (cases "name \<in> UPLOADS_DIR d")
  case True
  then show ?thesis
    unfolding delete_photo_fs_def photo_file_uploads
    using assms by (simp add: unlink_upload_def)
next
  case False
  then have "UPLOADS_DIR d - {name} = UPLOADS_DIR d" by auto
  then show ?thesis
    unfolding delete_photo_fs_def photo_file_uploads using False by simp
qed

lemma delete_api_updates_found:
  assumes "feed_available e" and "distinct (map id_u (feed s))" and "u \<in> set (feed s)"
    and "photo u = Some (''/uploads/'' @ name)"
    and "delete_photo e s (''/uploads/'' @ name) = (Inr (), s2)"
  shows "delete_api_updates e s (id_u u) =
     (OkTrue, s2\<lparr>updates := Some (filter (\<lambda>v. id_u v \<noteq> id_u u) (feed s))\<rparr>)"
proof -
  have g: "updates_or_empty (getDoc_updates e s) = feed s"
    using assms(1) by (simp add: getDoc_updates_def feed_available_def feed_def)
  have w: "fails e (StoreUpdateOne ''updates'') = None"
    using assms(1) by (simp add: feed_available_def)
  have f: "find (\<lambda>v. id_u v = id_u u) (feed s) = Some u"
    using assms(2,3) by (rule find_distinct)
  have a: "attached (Some u) = Some (''/uploads/'' @ name)"
    using assms(4) by (rule attached_uploads)
  show ?thesis
    unfolding delete_api_updates_def Let_def g f a
    by (simp add: assms(5) setDoc_updates_def w del: append.simps)
qed

lemma delete_api_updates_fs_found:
  assumes "feed_available e" and "distinct (map id_u (feed_fs d))" and "u \<in> set (feed_fs d)"
    and "photo u = Some (''/uploads/'' @ name)"
    and "delete_photo_fs e d (''/uploads/'' @ name) = (Inr (), d2)"
  shows "delete_api_updates_fs e d (id_u u) =
     (OkTrue, d2\<lparr>UPDATES_FILE := Some (filter (\<lambda>v. id_u v \<noteq> id_u u) (feed_fs d))\<rparr>)"
proof -
  have g: "readUpdates e d = feed_fs d"
    using assms(1) by (simp add: readUpdates_feed feed_available_def)
  have w: "fails e (WriteFile ''data/updates.json'') = None"
    using assms(1) by (simp add: feed_available_def)
  have f: "find (\<lambda>v. id_u v = id_u u) (feed_fs d) = Some u"
    using assms(2,3) by (rule find_distinct)
  have a: "attached (Some u) = Some (''/uploads/'' @ name)"
    using assms(4) by (rule attached_uploads)
  show ?thesis
    unfolding delete_api_updates_fs_def Let_def g f a
    by (simp add: assms(5) writeUpdates_def w del: append.simps)
qed

text \<open>
  C6, as the code has it. A feed of records with distinct ids holds a record whose photo
  is \<open>/uploads/name\<close>, the name without a path separator; the storage of the feed
  answers and the removal of the local file does not fail. Deleting the id of the record answers \<open>{ ok: true }\<close>, the feed loses
  exactly the record, and the uploads directory has no file \<open>name\<close>; this holds whatever
  the bucket does, so a failure of the removal from the bucket does not block the removal
  of the record. When the bucket answers as well, it holds no file \<open>name\<close> afterwards
  and a request for the photo is answered with status 404. In the file variant the
  directory is the whole photo store, and the request for the photo finds nothing.
\<close>

theorem delete_removes_record_and_photo:
  assumes "feed_available e" and "fails e (Unlink (local_path name)) = None"
    and "photo u = Some (''/uploads/'' @ name)"
    and "distinct (map id_u (feed s))" and "u \<in> set (feed s)"
    and "distinct (map id_u (feed_fs d))" and "u \<in> set (feed_fs d)"
    and "CHR ''/'' \<notin> set name"
  shows "fst (delete_api_updates e s (id_u u)) = OkTrue \<and>
         feed (snd (delete_api_updates e s (id_u u))) = filter (\<lambda>v. id_u v \<noteq> id_u u) (feed s) \<and>
         u \<notin> set (feed (snd (delete_api_updates e s (id_u u)))) \<and>
         name \<notin> uploads (snd (delete_api_updates e s (id_u u))) \<and>
         (gridfs_available e \<and> distinct (map fst (photos s)) \<and>
          fails e2 (GridFSFind name) = None \<longrightarrow>
            bucket_find (snd (delete_api_updates e s (id_u u))) name = [] \<and>
            get_uploads e2 (snd (delete_api_updates e s (id_u u))) name
              = Error 404 ''File not found'') \<and>
         fst (delete_api_updates_fs e d (id_u u)) = OkTrue \<and>
         feed_fs (snd (delete_api_updates_fs e d (id_u u)))
           = filter (\<lambda>v. id_u v \<noteq> id_u u) (feed_fs d) \<and>
         u \<notin> set (feed_fs (snd (delete_api_updates_fs e d (id_u u)))) \<and>
         name \<notin> UPLOADS_DIR (snd (delete_api_updates_fs e d (id_u u))) \<and>
         get_uploads_fs (snd (delete_api_updates_fs e d (id_u u))) name = Error 404 ''Not Found''"
proof -
  let ?s' = "snd (delete_api_updates e s (id_u u))"
  let ?d' = "snd (delete_api_updates_fs e d (id_u u))"
  obtain ph where dp: "delete_photo e s (''/uploads/'' @ name) =
      (Inr (), s\<lparr>uploads := uploads s - {name}, photos := ph\<rparr>)"
    using delete_photo_local [OF assms(2)] by blast
  note m = delete_api_updates_found [OF assms(1,4,5,3) dp]
  have 1: "fst (delete_api_updates e s (id_u u)) = OkTrue" by (simp add: m)
  have 2: "feed ?s' = filter (\<lambda>v. id_u v \<noteq> id_u u) (feed s)"
    by (simp add: m feed_def updates_or_empty_def)
  have 3: "u \<notin> set (feed ?s')" by (simp add: 2)
  have 4: "name \<notin> uploads ?s'" by (simp add: m)
  have 5: "bucket_find ?s' name = [] \<and> get_uploads e2 ?s' name = Error 404 ''File not found''"
    if g: "gridfs_available e \<and> distinct (map fst (photos s)) \<and> fails e2 (GridFSFind name) = None"
  proof -
    have b: "delete_photo e s (''/uploads/'' @ name) =
        (Inr (), s\<lparr>uploads := uploads s - {name},
                   photos := filter (\<lambda>f. snd f \<noteq> name) (photos s)\<rparr>)"
    proof (rule delete_photo_both [OF assms(2)])
      show "gridfs_available e" using g by simp
      show "distinct (map fst (photos s))" using g by simp
    qed
    note mb = delete_api_updates_found [OF assms(1,4,5,3) b]
    have bf: "bucket_find ?s' name = []"
      by (simp add: mb bucket_find_def filter_empty_conv)
    have up: "name \<notin> uploads ?s'" by (simp add: mb)
    have "get_uploads e2 ?s' name = Error 404 ''File not found''"
      using g by (simp add: get_uploads_def up downloadFromGridFS_def bf)
    then show ?thesis using bf by simp
  qed
  note f = delete_api_updates_fs_found [OF assms(1,6,7,3) delete_photo_fs_local [OF assms(2)]]
  have 6: "fst (delete_api_updates_fs e d (id_u u)) = OkTrue" by (simp add: f)
  have 7: "feed_fs ?d' = filter (\<lambda>v. id_u v \<noteq> id_u u) (feed_fs d)"
    by (simp add: f feed_fs_def updates_or_empty_def)
  have 8: "u \<notin> set (feed_fs ?d')" by (simp add: 7)
  have 9: "name \<notin> UPLOADS_DIR ?d'" by (simp add: f)
  have 10: "get_uploads_fs ?d' name = Error 404 ''Not Found''"
    using 9 by (simp add: get_uploads_fs_def)
  show ?thesis using 1 2 3 4 5 6 7 8 9 10 by (intro conjI impI) blast+
qed

lemma db_feed_facts:
  "photo update_a = Some (''/uploads/'' @ ''1770000000000-ab12cd.jpg'')"
  "distinct (map id_u (feed db_feed))" "update_a \<in> set (feed db_feed)"
  "distinct (map id_u (feed_fs disk_feed))" "update_a \<in> set (feed_fs disk_feed)"
  by (simp_all add: feed_def feed_fs_def db_feed_def disk_feed_def updates_or_empty_def
      update_a_def update_b_def)

theorem delete_removes_record_and_photo_witness:
  "fails env_gridfs_down (GridFSFind ''1770000000000-ab12cd.jpg'') = Some ''connection closed'' \<and>
   update_a \<in> set (feed db_feed) \<and>
   ''1770000000000-ab12cd.jpg'' \<in> uploads db_feed \<and>
   fst (delete_api_updates env_gridfs_down db_feed (id_u update_a)) = OkTrue \<and>
   update_a \<notin> set (feed (snd (delete_api_updates env_gridfs_down db_feed (id_u update_a)))) \<and>
   ''1770000000000-ab12cd.jpg''
     \<notin> uploads (snd (delete_api_updates env_gridfs_down db_feed (id_u update_a))) \<and>
   get_uploads env0 (snd (delete_api_updates env0 db_feed (id_u update_a)))
     ''1770000000000-ab12cd.jpg'' = Error 404 ''File not found'' \<and>
   get_uploads_fs (snd (delete_api_updates_fs env0 disk_feed (id_u update_a)))
     ''1770000000000-ab12cd.jpg'' = Error 404 ''Not Found''"
proof -
  have a: "feed_available env_gridfs_down" by (rule env_gridfs_down_feed)
  have b: "fails env_gridfs_down (Unlink (local_path ''1770000000000-ab12cd.jpg'')) = None"
    by (simp add: env_gridfs_down_def)
  have c: "fails env_gridfs_down (GridFSFind ''1770000000000-ab12cd.jpg'') = Some ''connection closed''"
    by (simp add: env_gridfs_down_def)
  have a0: "feed_available env0" by (simp add: feed_available_def env0_def)
  have b0: "fails env0 (Unlink (local_path ''1770000000000-ab12cd.jpg'')) = None"
    by (simp add: env0_def)
  have g0: "gridfs_available env0 \<and> distinct (map fst (photos db_feed)) \<and>
      fails env0 (GridFSFind ''1770000000000-ab12cd.jpg'') = None"
    by (simp add: gridfs_available_def env0_def db_feed_def)
  have u: "''1770000000000-ab12cd.jpg'' \<in> uploads db_feed" by (simp add: db_feed_def)
  have ns: "CHR ''/'' \<notin> set ''1770000000000-ab12cd.jpg''" by simp
  note t = delete_removes_record_and_photo [OF a b db_feed_facts ns, of env0]
  note t0 = delete_removes_record_and_photo [OF a0 b0 db_feed_facts ns, of env0]
  show ?thesis using t t0 c g0 u db_feed_facts(3) by blast
qed

text \<open>
  The claim C6 as it is written fails where the removal of the local photo file fails: the
  request is answered with status 500 and the record stays in the feed.
\<close>

theorem delete_blocked_by_unlink_counterexample:
  "update_a \<in> set (feed db_feed) \<and>
   photo update_a = Some ''/uploads/1770000000000-ab12cd.jpg'' \<and>
   fails env_unlink_down (Unlink (local_path ''1770000000000-ab12cd.jpg'')) = Some ''EPERM'' \<and>
   delete_api_updates env_unlink_down db_feed (id_u update_a) = (Error 500 ''EPERM'', db_feed) \<and>
   delete_api_updates_fs env_unlink_down disk_feed (id_u update_a) = (Error 500 ''EPERM'', disk_feed)"
proof -
  have f: "fails env_unlink_down (Unlink (local_path ''1770000000000-ab12cd.jpg'')) = Some ''EPERM''"
    "fails env_unlink_down (StoreFindOne ''updates'') = None"
    "fails env_unlink_down (ReadFile ''data/updates.json'') = None"
    by (simp_all add: env_unlink_down_def)
  have g: "updates_or_empty (getDoc_updates env_unlink_down db_feed) = [update_a, update_b]"
    by (simp add: getDoc_updates_def f(2) db_feed_def updates_or_empty_def)
  have r: "readUpdates env_unlink_down disk_feed = [update_a, update_b]"
    by (simp add: readUpdates_def f(3) disk_feed_def)
  have fi: "find (\<lambda>v. id_u v = id_u update_a) [update_a, update_b] = Some update_a" by simp
  have at: "attached (Some update_a) = Some (''/uploads/'' @ ''1770000000000-ab12cd.jpg'')"
    by (rule attached_uploads) (rule db_feed_facts(1))
  have dp: "delete_photo env_unlink_down db_feed (''/uploads/'' @ ''1770000000000-ab12cd.jpg'')
      = (Inl ''EPERM'', db_feed)"
    unfolding delete_photo_def Let_def replace_first_uploads
    by (simp add: unlinkSync_def f(1)) (simp add: db_feed_def)
  have df: "delete_photo_fs env_unlink_down disk_feed (''/uploads/'' @ ''1770000000000-ab12cd.jpg'')
      = (Inl ''EPERM'', disk_feed)"
    unfolding delete_photo_fs_def photo_file_uploads
    by (simp add: unlink_upload_def f(1)) (simp add: disk_feed_def)
  have m: "delete_api_updates env_unlink_down db_feed (id_u update_a) = (Error 500 ''EPERM'', db_feed)"
    unfolding delete_api_updates_def Let_def g fi at by (simp add: dp del: append.simps)
  have d: "delete_api_updates_fs env_unlink_down disk_feed (id_u update_a)
      = (Error 500 ''EPERM'', disk_feed)"
    unfolding delete_api_updates_fs_def Let_def r fi at by (simp add: df del: append.simps)
  have p: "photo update_a = Some ''/uploads/1770000000000-ab12cd.jpg''"
    by (simp add: update_a_def)
  show ?thesis using db_feed_facts(3) p f(1) m d by blast
qed

end
